theory Spec2Isabelle
  imports Main "HOL-Library.Sublist"
begin

section \<open>The asset downloader \<^verbatim>\<open>tfm-images-shop-parser-byAmr.py\<close>\<close>

text \<open>
  The program has two coroutines: \<^verbatim>\<open>download_item\<close>, which fetches one URL
  and stores the body under a local folder, and \<^verbatim>\<open>start_downloads\<close>, which
  builds the list of URLs (a discovered part and three fixed parts) and hands one
  \<^verbatim>\<open>download_item\<close> per URL to \<^verbatim>\<open>asyncio.gather\<close>. The theory models
  \<^verbatim>\<open>download_item\<close> and the building of the list; the interleaved run of the
  coroutines is not modelled.

  Python strings and byte strings are modelled as \<^typ>\<open>string\<close>: a list of 8-bit
  characters, read as the UTF-8 bytes of the Python value. What the program prints
  is modelled as a list of log lines, one constructor per \<^verbatim>\<open>print\<close> statement.
  Exceptions are values of the type \<open>exn\<close>; a computation that may raise returns
  \<open>exn + 'a\<close> with \<open>Inl\<close> for the exception raised.
\<close>

subsection \<open>Exceptions\<close>

text \<open>
  The exception classes the handlers of the program tell apart.
  \<open>ClientError\<close> is \<^verbatim>\<open>aiohttp.ClientError\<close> (and its subclasses, also those
  that derive from \<^verbatim>\<open>OSError\<close> as well: the handler for \<^verbatim>\<open>ClientError\<close>
  comes first). \<open>FileExistsError\<close> is the subclass of \<^verbatim>\<open>OSError\<close> that
  \<^verbatim>\<open>os.makedirs\<close> handles on its own. \<open>JSONDecodeError\<close> is a subclass of
  \<^verbatim>\<open>ValueError\<close>, and so is \<open>UnicodeEncodeError\<close>, which \<^verbatim>\<open>print\<close> raises
  for a line standard output cannot encode. \<open>OtherException\<close> stands for every other subclass of
  \<^verbatim>\<open>Exception\<close>. \<open>CancelledError\<close> stands for the exceptions that do not
  derive from \<^verbatim>\<open>Exception\<close> (\<^verbatim>\<open>asyncio.CancelledError\<close>,
  \<^verbatim>\<open>KeyboardInterrupt\<close>, \<^verbatim>\<open>SystemExit\<close>): no \<^verbatim>\<open>except Exception\<close>
  clause catches them.
\<close>

datatype exn = ClientError | OSError | FileExistsError | ValueError | IndexError
  | JSONDecodeError | UnicodeEncodeError | OtherException | CancelledError

definition is_OSError :: "exn \<Rightarrow> bool" where
  "is_OSError e = (e = OSError \<or> e = FileExistsError)"

definition is_Exception :: "exn \<Rightarrow> bool" where
  "is_Exception e = (e \<noteq> CancelledError)"

subsection \<open>String operations of Python\<close>

definition startswith :: "string \<Rightarrow> string \<Rightarrow> bool" where
  "startswith s pre = prefix pre s"

text \<open>\<^verbatim>\<open>s.lstrip("/")\<close> and \<^verbatim>\<open>s.rstrip("/")\<close>.\<close>

definition lstrip_slash :: "string \<Rightarrow> string" where
  "lstrip_slash s = dropWhile (\<lambda>c. c = CHR ''/'') s"

definition rstrip_slash :: "string \<Rightarrow> string" where
  "rstrip_slash s = rev (dropWhile (\<lambda>c. c = CHR ''/'') (rev s))"

text \<open>\<^verbatim>\<open>s.split(sep)\<close> for a separator of one character: the fields between the
  separators, at least one field.\<close>

fun py_split :: "char \<Rightarrow> string \<Rightarrow> string list" where
  "py_split sep [] = [[]]"
| "py_split sep (c # s) =
     (if c = sep then [] # py_split sep s
      else (case py_split sep s of
              [] \<Rightarrow> [[c]]
            | f # fs \<Rightarrow> (c # f) # fs))"

text \<open>\<^verbatim>\<open>s.split(sep, 1)\<close> read as a pair: the text before the first separator and
  the text after it (empty when there is no separator).\<close>

definition split_once :: "char \<Rightarrow> string \<Rightarrow> string \<times> string" where
  "split_once sep s =
     (takeWhile (\<lambda>c. c \<noteq> sep) s, drop 1 (dropWhile (\<lambda>c. c \<noteq> sep) s))"

text \<open>\<^verbatim>\<open>s[:i]\<close> and \<^verbatim>\<open>s[i:]\<close> for \<^verbatim>\<open>i = s.rfind("/") + 1\<close>: the text up to and
  including the last separator, and the text after it.\<close>

definition upto_last_slash :: "string \<Rightarrow> string" where
  "upto_last_slash s = rev (dropWhile (\<lambda>c. c \<noteq> CHR ''/'') (rev s))"

definition after_last_slash :: "string \<Rightarrow> string" where
  "after_last_slash s = rev (takeWhile (\<lambda>c. c \<noteq> CHR ''/'') (rev s))"

subsection \<open>\<^verbatim>\<open>urllib.parse.unquote\<close>\<close>

text \<open>
  A percent sign followed by two hexadecimal digits becomes the byte they denote; a
  percent sign not followed by two hexadecimal digits stays. (Python then decodes the
  bytes as UTF-8 and puts U+FFFD for a malformed sequence; the model keeps the bytes,
  so it is exact where the decoded bytes are well-formed UTF-8, ASCII included.)
\<close>

definition hex_digit :: "char \<Rightarrow> nat option" where
  "hex_digit c =
     (let n = (of_char c :: nat) in
      if 48 \<le> n \<and> n \<le> 57 then Some (n - 48)
      else if 97 \<le> n \<and> n \<le> 102 then Some (n - 87)
      else if 65 \<le> n \<and> n \<le> 70 then Some (n - 55)
      else None)"

fun unquote :: "string \<Rightarrow> string" where
  "unquote (c # a # b # s) =
     (if c = CHR ''%'' then
        (case (hex_digit a, hex_digit b) of
           (Some x, Some y) \<Rightarrow> char_of (16 * x + y) # unquote s
         | _ \<Rightarrow> c # unquote (a # b # s))
      else c # unquote (a # b # s))"
| "unquote (c # s) = c # unquote s"
| "unquote [] = []"

subsection \<open>\<^verbatim>\<open>urllib.parse.urlparse\<close>\<close>

text \<open>
  The six fields of \<^verbatim>\<open>ParseResult\<close>, computed as CPython's \<^verbatim>\<open>urlsplit\<close> and
  \<^verbatim>\<open>urlparse\<close> do: leading C0 control characters and spaces are stripped; tab,
  carriage return and line feed are removed; the scheme is the text before the first
  colon when it is made of scheme characters and starts with a letter; after
  \<^verbatim>\<open>//\<close> the network location runs to the first of \<^verbatim>\<open>/ ? #\<close>; the fragment
  is cut at the first \<^verbatim>\<open>#\<close>, then the query at the first \<^verbatim>\<open>?\<close>; for the
  schemes that use parameters, the parameters of the last path segment are cut at
  its first \<^verbatim>\<open>;\<close>. An unmatched square bracket in the network location raises
  \<^verbatim>\<open>ValueError\<close>. (The checks CPython makes on a bracketed host and on
  non-ASCII characters of the network location are not modelled: they concern no
  URL whose network location is ASCII without brackets.)
\<close>

record ParseResult =
  scheme :: string
  netloc :: string
  path :: string
  params :: string
  query :: string
  fragment :: string

definition c0_control_or_space :: "char \<Rightarrow> bool" where
  "c0_control_or_space c = ((of_char c :: nat) \<le> 32)"

definition unsafe_url_byte :: "char \<Rightarrow> bool" where
  "unsafe_url_byte c = ((of_char c :: nat) = 9 \<or> (of_char c :: nat) = 10 \<or> (of_char c :: nat) = 13)"

definition ascii_alpha :: "char \<Rightarrow> bool" where
  "ascii_alpha c =
     (let n = (of_char c :: nat) in (65 \<le> n \<and> n \<le> 90) \<or> (97 \<le> n \<and> n \<le> 122))"

definition scheme_char :: "char \<Rightarrow> bool" where
  "scheme_char c =
     (let n = (of_char c :: nat) in
      ascii_alpha c \<or> (48 \<le> n \<and> n \<le> 57) \<or> c = CHR ''+'' \<or> c = CHR ''-'' \<or> c = CHR ''.'')"

definition ascii_lower :: "char \<Rightarrow> char" where
  "ascii_lower c =
     (let n = (of_char c :: nat) in if 65 \<le> n \<and> n \<le> 90 then char_of (n + 32) else c)"

definition uses_params :: "string list" where
  "uses_params = ['''', ''ftp'', ''hdl'', ''prospero'', ''http'', ''imap'', ''https'',
     ''shttp'', ''rtsp'', ''rtspu'', ''sip'', ''sips'', ''mms'', ''sftp'', ''tel'']"

definition split_scheme :: "string \<Rightarrow> string \<times> string" where
  "split_scheme url =
     (let pre = takeWhile (\<lambda>c. c \<noteq> CHR '':'') url in
      (case pre of
         [] \<Rightarrow> ([], url)
       | c # _ \<Rightarrow>
           if CHR '':'' \<in> set url \<and> ascii_alpha c \<and> list_all scheme_char pre
           then (map ascii_lower pre, drop (Suc (length pre)) url)
           else ([], url)))"

definition netloc_delim :: "char \<Rightarrow> bool" where
  "netloc_delim c = (c = CHR ''/'' \<or> c = CHR ''?'' \<or> c = CHR ''#'')"

definition splitnetloc :: "string \<Rightarrow> string \<times> string" where
  "splitnetloc url =
     (if take 2 url = ''//''
      then (takeWhile (\<lambda>c. \<not> netloc_delim c) (drop 2 url),
            dropWhile (\<lambda>c. \<not> netloc_delim c) (drop 2 url))
      else ([], url))"

definition unmatched_bracket :: "string \<Rightarrow> bool" where
  "unmatched_bracket loc =
     ((CHR ''['' \<in> set loc \<and> CHR '']'' \<notin> set loc) \<or>
      (CHR '']'' \<in> set loc \<and> CHR ''['' \<notin> set loc))"

definition splitparams :: "string \<Rightarrow> string \<times> string" where
  "splitparams url =
     (let seg = after_last_slash url in
      if CHR '';'' \<in> set seg
      then (upto_last_slash url @ takeWhile (\<lambda>c. c \<noteq> CHR '';'') seg,
            drop 1 (dropWhile (\<lambda>c. c \<noteq> CHR '';'') seg))
      else (url, []))"

definition urlparse :: "string \<Rightarrow> exn + ParseResult" where
  "urlparse url0 =
     (let url1 = filter (\<lambda>c. \<not> unsafe_url_byte c) (dropWhile c0_control_or_space url0);
          (sch, url2) = split_scheme url1;
          (loc, url3) = splitnetloc url2
      in if unmatched_bracket loc then Inl ValueError
         else
           (let (url4, frag) = split_once CHR ''#'' url3;
                (url5, qry) = split_once CHR ''?'' url4;
                (pth, prm) = (if sch \<in> set uses_params \<and> CHR '';'' \<in> set url5
                              then splitparams url5 else (url5, []))
            in Inr \<lparr>scheme = sch, netloc = loc, path = pth, params = prm,
                     query = qry, fragment = frag\<rparr>))"

subsection \<open>\<^verbatim>\<open>os.path\<close> (POSIX)\<close>

text \<open>\<^verbatim>\<open>os.path.join(a, b)\<close>: an absolute \<open>b\<close> replaces \<open>a\<close>; otherwise \<open>b\<close> is
  appended, with a separator unless \<open>a\<close> is empty or ends with one.\<close>

definition os_path_join :: "string \<Rightarrow> string \<Rightarrow> string" where
  "os_path_join a b =
     (if startswith b ''/'' then b
      else if a = [] \<or> after_last_slash a = [] then a @ b
      else a @ ''/'' @ b)"

text \<open>\<^verbatim>\<open>os.path.split\<close>, \<^verbatim>\<open>os.path.dirname\<close>, \<^verbatim>\<open>os.path.basename\<close>: the head
  loses its trailing separators unless it consists of separators only.\<close>

definition os_path_dirname :: "string \<Rightarrow> string" where
  "os_path_dirname p =
     (let head = upto_last_slash p in
      if rstrip_slash head = [] then head else rstrip_slash head)"

definition os_path_basename :: "string \<Rightarrow> string" where
  "os_path_basename p = after_last_slash p"

definition os_path_split :: "string \<Rightarrow> string \<times> string" where
  "os_path_split p = (os_path_dirname p, os_path_basename p)"

subsection \<open>The local store\<close>

text \<open>
  The filesystem the program writes to is a map from path texts to nodes: a
  directory, or a regular file with its content and whether the process may read and
  write it. The model identifies a path with its text, up to trailing separators: it
  does not resolve \<^verbatim>\<open>.\<close> and \<^verbatim>\<open>..\<close> components or repeated separators,
  follows no links, and takes each operation as one step. Creating an entry needs its parent
  directory; the working directory (the empty parent) and the root always exist.
\<close>

datatype node = Dir | File (file_content: string) (readable: bool) (writable: bool)

type_synonym filesystem = "string \<Rightarrow> node option"

text \<open>What the system reports for a path (\<^verbatim>\<open>stat\<close>): nothing for the empty path;
  a path with trailing separators names a directory or nothing.\<close>

definition stat :: "filesystem \<Rightarrow> string \<Rightarrow> node option" where
  "stat fs p =
     (if p = [] then None
      else if rstrip_slash p = [] then Some Dir
      else if rstrip_slash p = p then fs p
      else (case fs (rstrip_slash p) of Some Dir \<Rightarrow> Some Dir | _ \<Rightarrow> None))"

definition os_path_exists :: "filesystem \<Rightarrow> string \<Rightarrow> bool" where
  "os_path_exists fs p = (stat fs p \<noteq> None)"

definition os_path_isdir :: "filesystem \<Rightarrow> string \<Rightarrow> bool" where
  "os_path_isdir fs p = (stat fs p = Some Dir)"

definition parent_is_dir :: "filesystem \<Rightarrow> string \<Rightarrow> bool" where
  "parent_is_dir fs p = (os_path_dirname p = [] \<or> os_path_isdir fs (os_path_dirname p))"

text \<open>\<^verbatim>\<open>os.mkdir\<close>: \<^verbatim>\<open>FileExistsError\<close> when the path exists, another
  \<^verbatim>\<open>OSError\<close> when the path is empty or its parent is no directory.\<close>

definition os_mkdir :: "filesystem \<Rightarrow> string \<Rightarrow> exn + filesystem" where
  "os_mkdir fs p =
     (if p = [] then Inl OSError
      else if rstrip_slash p = [] \<or> fs (rstrip_slash p) \<noteq> None then Inl FileExistsError
      else if parent_is_dir fs (rstrip_slash p) then Inr (fs(rstrip_slash p \<mapsto> Dir))
      else Inl OSError)"

text \<open>
  \<^verbatim>\<open>os.makedirs(name, exist_ok=...)\<close>, as CPython defines it:
  \<^verbatim>\<open>
  head, tail = path.split(name)
  if not tail:
      head, tail = path.split(head)
  if head and tail and not path.exists(head):
      try:
          makedirs(head, exist_ok=exist_ok)
      except FileExistsError:
          pass
      if tail == curdir:
          return
  try:
      mkdir(name, mode)
  except OSError:
      if not exist_ok or not path.isdir(name):
          raise
  \<close>
\<close>

definition makedirs_split :: "string \<Rightarrow> string \<times> string" where
  "makedirs_split name =
     (if os_path_basename name = [] then os_path_split (os_path_dirname name)
      else os_path_split name)"

definition makedirs_mkdir :: "filesystem \<Rightarrow> string \<Rightarrow> bool \<Rightarrow> (exn + unit) \<times> filesystem" where
  "makedirs_mkdir fs name exist_ok =
     (case os_mkdir fs name of
        Inr fs' \<Rightarrow> (Inr (), fs')
      | Inl e \<Rightarrow> if \<not> exist_ok \<or> \<not> os_path_isdir fs name then (Inl e, fs) else (Inr (), fs))"

text \<open>The result is the exception raised, if any, and the filesystem as the call
  leaves it (the directories made before a failure stay).\<close>

function os_makedirs :: "filesystem \<Rightarrow> string \<Rightarrow> bool \<Rightarrow> (exn + unit) \<times> filesystem" where
  "os_makedirs fs name exist_ok =
     (if fst (makedirs_split name) \<noteq> [] \<and> snd (makedirs_split name) \<noteq> []
         \<and> \<not> os_path_exists fs (fst (makedirs_split name))
      then
        (case os_makedirs fs (fst (makedirs_split name)) exist_ok of
           (r, fs') \<Rightarrow>
             if r = Inr () \<or> r = Inl FileExistsError then
               (if snd (makedirs_split name) = ''.'' then (Inr (), fs')
                else makedirs_mkdir fs' name exist_ok)
             else (r, fs'))
      else makedirs_mkdir fs name exist_ok)"
  by pat_completeness auto
termination
proof (relation "measure (\<lambda>(fs, name, exist_ok). length name)")
  show "wf (measure (\<lambda>(fs, name, exist_ok). length name))"
    by simp
next
  fix fs :: filesystem and name :: string and exist_ok :: bool
  assume a: "fst (makedirs_split name) \<noteq> [] \<and> snd (makedirs_split name) \<noteq> []
    \<and> \<not> os_path_exists fs (fst (makedirs_split name))"
  have up: "length (upto_last_slash s) + length (after_last_slash s) = length s" for s
  proof -
    have "length (dropWhile (\<lambda>c. c \<noteq> CHR ''/'') (rev s))
        + length (takeWhile (\<lambda>c. c \<noteq> CHR ''/'') (rev s)) = length (rev s)"
      by (metis add.commute length_append takeWhile_dropWhile_id)
    then show ?thesis
      by (simp add: upto_last_slash_def after_last_slash_def)
  qed
  have rs: "length (rstrip_slash s) \<le> length s" for s
    by (simp add: rstrip_slash_def length_dropWhile_le [where xs = "rev s", simplified])
  have dn: "length (os_path_dirname s) + length (os_path_basename s) \<le> length s" for s
    using up [of s] rs [of "upto_last_slash s"]
    by (simp add: os_path_dirname_def os_path_basename_def Let_def)
  have "length (fst (makedirs_split name)) < length name"
  proof (cases "os_path_basename name = []")
    case True
    with a have "os_path_basename (os_path_dirname name) \<noteq> []"
      by (simp add: makedirs_split_def os_path_split_def)
    then have "0 < length (os_path_basename (os_path_dirname name))"
      by simp
    then have "length (os_path_dirname (os_path_dirname name)) < length name"
      using dn [of "os_path_dirname name"] dn [of name] by linarith
    then show ?thesis
      using True by (simp add: makedirs_split_def os_path_split_def)
  next
    case False
    then have "0 < length (os_path_basename name)"
      by simp
    then have "length (os_path_dirname name) < length name"
      using dn [of name] by linarith
    then show ?thesis
      using False by (simp add: makedirs_split_def os_path_split_def)
  qed
  then show "((fs, fst (makedirs_split name), exist_ok), (fs, name, exist_ok))
    \<in> measure (\<lambda>(fs, name, exist_ok). length name)"
    by simp
qed

declare os_makedirs.simps [simp del]

text \<open>Opening a file for reading and reading all of it
  (\<^verbatim>\<open>aiofiles.open(p, mode='rb')\<close>, then \<^verbatim>\<open>read()\<close>): an \<^verbatim>\<open>OSError\<close> when
  there is no readable regular file at the path.\<close>

definition read_file :: "filesystem \<Rightarrow> string \<Rightarrow> exn + string" where
  "read_file fs p =
     (case stat fs p of
        Some (File c r w) \<Rightarrow> if r then Inr c else Inl OSError
      | _ \<Rightarrow> Inl OSError)"

text \<open>Opening a file for writing and writing the content
  (\<^verbatim>\<open>aiofiles.open(p, mode='wb')\<close>, then \<^verbatim>\<open>write(c)\<close>): an existing writable
  file gets the new content; where nothing exists, a file is created (readable and
  writable) if the path names a file in an existing directory; otherwise
  \<^verbatim>\<open>OSError\<close>.\<close>

definition write_file :: "filesystem \<Rightarrow> string \<Rightarrow> string \<Rightarrow> exn + filesystem" where
  "write_file fs p c =
     (case stat fs p of
        Some Dir \<Rightarrow> Inl OSError
      | Some (File old r w) \<Rightarrow> if w then Inr (fs(p \<mapsto> File c r w)) else Inl OSError
      | None \<Rightarrow>
          if p \<noteq> [] \<and> rstrip_slash p = p \<and> parent_is_dir fs p
          then Inr (fs(p \<mapsto> File c True True))
          else Inl OSError)"

subsection \<open>The network and the JSON decoder\<close>

text \<open>
  A reply to \<^verbatim>\<open>session.get(url)\<close> has a status and a body; reading the body
  (\<^verbatim>\<open>await resp.read()\<close>) may raise. The session is a function from the URL to the
  exception the request raises or the reply it gets.
\<close>

record response =
  status :: int
  body :: "exn + string"

type_synonym session = "string \<Rightarrow> exn + response"

text \<open>The values \<^verbatim>\<open>json.loads\<close> returns. A \<^verbatim>\<open>dict\<close> is the list of its
  items in insertion order.\<close>

datatype json = JNone | JBool bool | JInt int | JFloat string | JStr string
  | JList "json list" | JDict "(string \<times> json) list"

text \<open>The environment of a run: the session, and the decoder, which stands for
  \<^verbatim>\<open>json.loads(content.decode(errors='ignore'))\<close> on the bytes of a reply.\<close>

record env =
  session_get :: session
  json_loads :: "string \<Rightarrow> exn + json"

subsection \<open>What the program prints\<close>

text \<open>One constructor per \<^verbatim>\<open>print\<close> statement, with the values it formats; the
  four lines of the banner are one constructor.\<close>

datatype log_line =
    INFO_Processing string
  | Creating_directory string
  | SKIP string
  | WARN_content_differs string
  | WARN_could_not_read string exn
  | SAVE string string
  | ERROR_not_found string
  | ERROR_status string int
  | NETWORK_ERROR string exn
  | OS_ERROR string string exn
  | UNEXPECTED_ERROR string exn
  | Banner
  | INFO_created_base string
  | Fetching_file_list
  | INFO_Fetching string
  | ERROR_json_structure string
  | WARN_non_string json
  | ERROR_decode_json string
  | ERROR_processing string exn
  | ERROR_fetch_status string int
  | ERROR_connect string exn
  | Added_urls nat
  | Downloading_swf
  | Downloading_language_files
  | Downloading_music_files
  | INFO_Starting nat
  | INFO_No_items
  | Download_finished

subsection \<open>\<^verbatim>\<open>download_item\<close>\<close>

definition BASE_DOWNLOAD_FOLDER :: string where
  "BASE_DOWNLOAD_FOLDER = ''TFM_DOWNLOADED_ASSETS''"

text \<open>Lines 25 to 37: from the URL to the local file path.\<close>

definition local_filepath_of :: "string \<Rightarrow> string \<Rightarrow> exn + string" where
  "local_filepath_of url base_folder =
     (case urlparse url of
        Inl e \<Rightarrow> Inl e
      | Inr parsed_url \<Rightarrow>
          (case py_split CHR ''?'' (path parsed_url) of
             [] \<Rightarrow> Inl IndexError
           | field0 # _ \<Rightarrow>
               (let path_without_query = unquote field0 in
                Inr (os_path_join base_folder
                      (if startswith path_without_query ''/''
                       then drop 1 path_without_query
                       else path_without_query)))))"

text \<open>A step of the body returns the exception it raised, if any, the lines it
  printed and the filesystem it leaves. The definitions of this subsection are
  \<^verbatim>\<open>download_item\<close> on a console that can print every line; the next subsection
  has the console as a parameter.\<close>

type_synonym outcome = "(exn + unit) \<times> log_line list \<times> filesystem"

definition printed_before :: "log_line list \<Rightarrow> outcome \<Rightarrow> outcome" where
  "printed_before lg r = (case r of (e, lg', fs) \<Rightarrow> (e, lg @ lg', fs))"

text \<open>Lines 40 to 43: the parent directories.\<close>

definition make_local_dir :: "filesystem \<Rightarrow> string \<Rightarrow> outcome" where
  "make_local_dir fs local_dir =
     (if \<not> os_path_exists fs local_dir
      then (case os_makedirs fs local_dir True of
              (r, fs') \<Rightarrow> (r, [Creating_directory local_dir], fs'))
      else (Inr (), [], fs))"

text \<open>Lines 59 to 61: the write.\<close>

definition write_content :: "filesystem \<Rightarrow> string \<Rightarrow> string \<Rightarrow> outcome" where
  "write_content fs local_filepath content_to_write =
     (case write_file fs local_filepath content_to_write of
        Inl e \<Rightarrow> (Inl e, [], fs)
      | Inr fs' \<Rightarrow>
          (Inr (),
           [SAVE (os_path_basename local_filepath) (os_path_dirname local_filepath)],
           fs'))"

text \<open>Lines 46 to 61: the comparison with the existing file, then the write. An
  exception of the read is caught there (\<^verbatim>\<open>except Exception as e_read\<close>).\<close>

definition compare_and_write :: "filesystem \<Rightarrow> string \<Rightarrow> string \<Rightarrow> outcome" where
  "compare_and_write fs local_filepath content_to_write =
     (if os_path_exists fs local_filepath then
        (case read_file fs local_filepath of
           Inr existing_content \<Rightarrow>
             if existing_content = content_to_write
             then (Inr (), [SKIP local_filepath], fs)
             else printed_before [WARN_content_differs local_filepath]
                    (write_content fs local_filepath content_to_write)
         | Inl e_read \<Rightarrow>
             if is_Exception e_read
             then printed_before [WARN_could_not_read local_filepath e_read]
                    (write_content fs local_filepath content_to_write)
             else (Inl e_read, [], fs))
      else write_content fs local_filepath content_to_write)"

text \<open>Lines 39 to 61: what \<^verbatim>\<open>download_item\<close> does with the bytes of a reply once
  it has the local file path.\<close>

definition persist :: "filesystem \<Rightarrow> string \<Rightarrow> string \<Rightarrow> outcome" where
  "persist fs local_filepath content_to_write =
     (case make_local_dir fs (os_path_dirname local_filepath) of
        (Inl e, lg, fs') \<Rightarrow> (Inl e, lg, fs')
      | (Inr u, lg, fs') \<Rightarrow>
          printed_before lg (compare_and_write fs' local_filepath content_to_write))"

text \<open>Lines 19 to 66: the body of the \<^verbatim>\<open>try\<close>. The last component is the value
  of the variable \<^verbatim>\<open>local_filepath\<close> when the body ends.\<close>

definition download_try ::
  "session \<Rightarrow> string \<Rightarrow> string \<Rightarrow> filesystem \<Rightarrow> outcome \<times> string" where
  "download_try sess url base_folder fs =
     (case sess url of
        Inl e \<Rightarrow> ((Inl e, [INFO_Processing url], fs), ''N/A'')
      | Inr resp \<Rightarrow>
          if status resp = 200 then
            (case body resp of
               Inl e \<Rightarrow> ((Inl e, [INFO_Processing url], fs), ''N/A'')
             | Inr content_to_write \<Rightarrow>
                 (case local_filepath_of url base_folder of
                    Inl e \<Rightarrow> ((Inl e, [INFO_Processing url], fs), ''N/A'')
                  | Inr local_filepath \<Rightarrow>
                      (printed_before [INFO_Processing url]
                         (persist fs local_filepath content_to_write),
                       local_filepath)))
          else if status resp = 404 then
            ((Inr (), [INFO_Processing url, ERROR_not_found url], fs), ''N/A'')
          else
            ((Inr (), [INFO_Processing url, ERROR_status url (status resp)], fs), ''N/A''))"

text \<open>The whole coroutine: the body and the three handlers, in their order. The first
  component of the result is the exception that leaves \<^verbatim>\<open>download_item\<close>.\<close>

definition download_item ::
  "session \<Rightarrow> string \<Rightarrow> string \<Rightarrow> filesystem \<Rightarrow> outcome" where
  "download_item sess url base_folder fs =
     (case download_try sess url base_folder fs of
        ((Inr u, lg, fs'), local_filepath) \<Rightarrow> (Inr (), lg, fs')
      | ((Inl e, lg, fs'), local_filepath) \<Rightarrow>
          if e = ClientError then (Inr (), lg @ [NETWORK_ERROR url e], fs')
          else if is_OSError e then (Inr (), lg @ [OS_ERROR url local_filepath e], fs')
          else if is_Exception e then (Inr (), lg @ [UNEXPECTED_ERROR url e], fs')
          else (Inl e, lg, fs'))"

subsection \<open>\<^verbatim>\<open>download_item\<close> where a \<^verbatim>\<open>print\<close> can fail\<close>

text \<open>
  \<^verbatim>\<open>print\<close> writes to standard output and raises \<^verbatim>\<open>UnicodeEncodeError\<close>
  when the encoding of standard output has no code for a character of the line. A
  console says which lines it can print. Each \<^verbatim>\<open>print\<close> of \<^verbatim>\<open>download_item\<close>
  is a step that may raise; a \<^verbatim>\<open>print\<close> inside a handler that raises leaves the
  handler. (\<^verbatim>\<open>traceback.print_exc()\<close> of line 75 writes to standard error, which
  escapes what it cannot encode, and is not a step of the model.)
\<close>

type_synonym console = "log_line \<Rightarrow> bool"

definition print_line :: "console \<Rightarrow> log_line \<Rightarrow> filesystem \<Rightarrow> outcome" where
  "print_line out line fs =
     (if out line then (Inr (), [line], fs) else (Inl UnicodeEncodeError, [], fs))"

text \<open>One step, then the rest where the step raised nothing.\<close>

definition and_then :: "outcome \<Rightarrow> (filesystem \<Rightarrow> outcome) \<Rightarrow> outcome" where
  "and_then r k =
     (case r of
        (Inl e, lg, fs) \<Rightarrow> (Inl e, lg, fs)
      | (Inr u, lg, fs) \<Rightarrow> printed_before lg (k fs))"

text \<open>Lines 40 to 43.\<close>

definition make_local_dir_on :: "console \<Rightarrow> filesystem \<Rightarrow> string \<Rightarrow> outcome" where
  "make_local_dir_on out fs local_dir =
     (if \<not> os_path_exists fs local_dir
      then and_then (print_line out (Creating_directory local_dir) fs)
             (\<lambda>fs1. case os_makedirs fs1 local_dir True of (r, fs') \<Rightarrow> (r, [], fs'))
      else (Inr (), [], fs))"

text \<open>Lines 59 to 61.\<close>

definition write_content_on :: "console \<Rightarrow> filesystem \<Rightarrow> string \<Rightarrow> string \<Rightarrow> outcome" where
  "write_content_on out fs local_filepath content_to_write =
     (case write_file fs local_filepath content_to_write of
        Inl e \<Rightarrow> (Inl e, [], fs)
      | Inr fs' \<Rightarrow>
          print_line out
            (SAVE (os_path_basename local_filepath) (os_path_dirname local_filepath)) fs')"

text \<open>Lines 56 to 61: the handler of the inner \<^verbatim>\<open>try\<close>, then the write.\<close>

definition read_failed_on ::
  "console \<Rightarrow> filesystem \<Rightarrow> string \<Rightarrow> string \<Rightarrow> exn \<Rightarrow> outcome" where
  "read_failed_on out fs local_filepath content_to_write e_read =
     and_then (print_line out (WARN_could_not_read local_filepath e_read) fs)
       (\<lambda>fs1. write_content_on out fs1 local_filepath content_to_write)"

text \<open>Lines 46 to 61. The two prints of the inner \<^verbatim>\<open>try\<close> (lines 52 and 55) are
  inside it: where one raises, its handler runs.\<close>

definition compare_and_write_on ::
  "console \<Rightarrow> filesystem \<Rightarrow> string \<Rightarrow> string \<Rightarrow> outcome" where
  "compare_and_write_on out fs local_filepath content_to_write =
     (if os_path_exists fs local_filepath then
        (case read_file fs local_filepath of
           Inr existing_content \<Rightarrow>
             if existing_content = content_to_write then
               (if out (SKIP local_filepath) then (Inr (), [SKIP local_filepath], fs)
                else read_failed_on out fs local_filepath content_to_write UnicodeEncodeError)
             else
               (if out (WARN_content_differs local_filepath)
                then printed_before [WARN_content_differs local_filepath]
                       (write_content_on out fs local_filepath content_to_write)
                else read_failed_on out fs local_filepath content_to_write UnicodeEncodeError)
         | Inl e_read \<Rightarrow>
             if is_Exception e_read
             then read_failed_on out fs local_filepath content_to_write e_read
             else (Inl e_read, [], fs))
      else write_content_on out fs local_filepath content_to_write)"

text \<open>Lines 39 to 61.\<close>

definition persist_on :: "console \<Rightarrow> filesystem \<Rightarrow> string \<Rightarrow> string \<Rightarrow> outcome" where
  "persist_on out fs local_filepath content_to_write =
     and_then (make_local_dir_on out fs (os_path_dirname local_filepath))
       (\<lambda>fs1. compare_and_write_on out fs1 local_filepath content_to_write)"

text \<open>Lines 19 to 66: the body of the \<^verbatim>\<open>try\<close>, whose first statement is the
  \<^verbatim>\<open>print\<close> of line 19.\<close>

definition download_try_on ::
  "console \<Rightarrow> session \<Rightarrow> string \<Rightarrow> string \<Rightarrow> filesystem \<Rightarrow> outcome \<times> string" where
  "download_try_on out sess url base_folder fs =
     (if \<not> out (INFO_Processing url) then ((Inl UnicodeEncodeError, [], fs), ''N/A'')
      else
        (case sess url of
           Inl e \<Rightarrow> ((Inl e, [INFO_Processing url], fs), ''N/A'')
         | Inr resp \<Rightarrow>
             if status resp = 200 then
               (case body resp of
                  Inl e \<Rightarrow> ((Inl e, [INFO_Processing url], fs), ''N/A'')
                | Inr content_to_write \<Rightarrow>
                    (case local_filepath_of url base_folder of
                       Inl e \<Rightarrow> ((Inl e, [INFO_Processing url], fs), ''N/A'')
                     | Inr local_filepath \<Rightarrow>
                         (printed_before [INFO_Processing url]
                            (persist_on out fs local_filepath content_to_write),
                          local_filepath)))
             else if status resp = 404 then
               (printed_before [INFO_Processing url]
                  (print_line out (ERROR_not_found url) fs), ''N/A'')
             else
               (printed_before [INFO_Processing url]
                  (print_line out (ERROR_status url (status resp)) fs), ''N/A'')))"

text \<open>The whole coroutine. Each handler is one \<^verbatim>\<open>print\<close>: where it raises, the
  exception leaves \<^verbatim>\<open>download_item\<close>.\<close>

definition download_item_on ::
  "console \<Rightarrow> session \<Rightarrow> string \<Rightarrow> string \<Rightarrow> filesystem \<Rightarrow> outcome" where
  "download_item_on out sess url base_folder fs =
     (case download_try_on out sess url base_folder fs of
        ((Inr u, lg, fs'), local_filepath) \<Rightarrow> (Inr (), lg, fs')
      | ((Inl e, lg, fs'), local_filepath) \<Rightarrow>
          if e = ClientError
          then printed_before lg (print_line out (NETWORK_ERROR url e) fs')
          else if is_OSError e
          then printed_before lg (print_line out (OS_ERROR url local_filepath e) fs')
          else if is_Exception e
          then printed_before lg (print_line out (UNEXPECTED_ERROR url e) fs')
          else (Inl e, lg, fs'))"

subsection \<open>\<^verbatim>\<open>start_downloads\<close>: the list of tasks\<close>

definition paths_for_derpolino :: "string list" where
  "paths_for_derpolino =
     [''images'', ''ar'', ''godspaw'', ''share'', ''woot'', ''wp-admin'', ''wp-content'',
      ''wp-includes'']"

definition php_url_of :: "string \<Rightarrow> string" where
  "php_url_of html_path_segment =
     ''http://derpolino.alwaysdata.net/imagetfm/getFiles.php?n='' @ html_path_segment
       @ ''%2F&mode=tfm''"

text \<open>Lines 122 to 125: the full URL of a discovered entry.\<close>

definition full_url_of :: "string \<Rightarrow> string" where
  "full_url_of p_url =
     (if \<not> (startswith p_url ''http://'' \<or> startswith p_url ''https://'')
      then ''https://www.transformice.com/'' @ lstrip_slash p_url
      else p_url)"

text \<open>Lines 118 to 126: the loop over the entries; the URLs appended and the warnings
  printed.\<close>

fun collect_urls :: "json list \<Rightarrow> string list \<times> log_line list" where
  "collect_urls [] = ([], [])"
| "collect_urls (p_url # rest) =
     (case p_url of
        JStr s \<Rightarrow> (case collect_urls rest of (urls, lg) \<Rightarrow> (full_url_of s # urls, lg))
      | _ \<Rightarrow> (case collect_urls rest of (urls, lg) \<Rightarrow> (urls, WARN_non_string p_url # lg)))"

text \<open>Lines 110 to 116: the entries of the decoded reply.\<close>

definition partial_urls_of :: "string \<Rightarrow> json \<Rightarrow> json list \<times> log_line list" where
  "partial_urls_of php_url data =
     (case data of
        JDict items \<Rightarrow> (map snd items, [])
      | JList xs \<Rightarrow> (xs, [])
      | _ \<Rightarrow> ([], [ERROR_json_structure php_url]))"

text \<open>Lines 98 to 134: one round of the loop over the path segments. The result is
  the exception that leaves the round, the lines printed, and the URLs the round
  appends to \<^verbatim>\<open>derpolino_urls_to_download\<close>.\<close>

definition derpolino_segment ::
  "env \<Rightarrow> string \<Rightarrow> (exn + unit) \<times> log_line list \<times> string list" where
  "derpolino_segment ev html_path_segment =
     (let php_url = php_url_of html_path_segment in
      case session_get ev php_url of
        Inl e \<Rightarrow>
          if is_Exception e
          then (Inr (), [INFO_Fetching php_url, ERROR_connect php_url e], [])
          else (Inl e, [INFO_Fetching php_url], [])
      | Inr resp \<Rightarrow>
          if status resp = 200 then
            (case body resp of
               Inl e \<Rightarrow>
                 if is_Exception e
                 then (Inr (), [INFO_Fetching php_url, ERROR_connect php_url e], [])
                 else (Inl e, [INFO_Fetching php_url], [])
             | Inr content \<Rightarrow>
                 (case json_loads ev content of
                    Inl e \<Rightarrow>
                      if e = JSONDecodeError
                      then (Inr (), [INFO_Fetching php_url, ERROR_decode_json php_url], [])
                      else if is_Exception e
                      then (Inr (), [INFO_Fetching php_url, ERROR_processing php_url e], [])
                      else (Inl e, [INFO_Fetching php_url], [])
                  | Inr data \<Rightarrow>
                      (case partial_urls_of php_url data of
                         (partial_urls, lg) \<Rightarrow>
                           (case collect_urls partial_urls of
                              (urls, warns) \<Rightarrow>
                                (Inr (), INFO_Fetching php_url # lg @ warns, urls)))))
          else (Inr (), [INFO_Fetching php_url, ERROR_fetch_status php_url (status resp)], []))"

text \<open>Lines 97 to 134: the loop over the path segments.\<close>

fun derpolino_loop ::
  "env \<Rightarrow> string list \<Rightarrow> (exn + unit) \<times> log_line list \<times> string list" where
  "derpolino_loop ev [] = (Inr (), [], [])"
| "derpolino_loop ev (seg # segs) =
     (case derpolino_segment ev seg of
        (Inl e, lg, urls) \<Rightarrow> (Inl e, lg, urls)
      | (Inr u, lg, urls) \<Rightarrow>
          (case derpolino_loop ev segs of
             (r, lg', urls') \<Rightarrow> (r, lg @ lg', urls @ urls')))"

text \<open>Lines 140 to 157: the fixed URLs.\<close>

definition bibliotheques_urls :: "string list" where
  "bibliotheques_urls =
     map (\<lambda>binary. ''http://transformice.com/images/x_bibliotheques/'' @ binary @ ''.swf'')
       [''x_fourrures'', ''x_fourrures2'', ''x_fourrures3'', ''x_fourrures4'',
        ''x_meli_costumes'', ''x_pictos_editeur'']"

definition langues_urls :: "string list" where
  "langues_urls =
     map (\<lambda>langue. ''http://transformice.com/langues/'' @ ''tfz_'' @ langue)
       [''en'', ''fr'', ''br'', ''es'', ''cn'', ''tr'', ''vk'', ''pl'', ''hu'', ''nl'', ''ro'',
        ''id'', ''de'', ''e2'', ''ar'', ''ph'', ''lt'', ''jp'', ''ch'', ''fi'', ''cz'', ''sk'',
        ''hr'', ''bu'', ''lv'', ''he'', ''it'', ''et'', ''az'', ''pt'']"

text \<open>The decimal text of a number, as an f-string formats it.\<close>

fun str_of_nat :: "nat \<Rightarrow> string" where
  "str_of_nat n =
     (if n < 10 then [char_of (48 + n)]
      else str_of_nat (n div 10) @ [char_of (48 + n mod 10)])"

declare str_of_nat.simps [simp del]

definition musiques_urls :: "string list" where
  "musiques_urls =
     map (\<lambda>music_num. ''http://transformice.com/images/musiques/'' @ ''tfm_''
            @ str_of_nat music_num @ ''.mp3'')
       [0 ..< 4]"

definition static_urls :: "string list" where
  "static_urls = bibliotheques_urls @ langues_urls @ musiques_urls"

text \<open>Lines 89 to 157: the list \<^verbatim>\<open>tasks\<close>, as the URLs of its coroutines.\<close>

definition tasks_of :: "env \<Rightarrow> (exn + unit) \<times> log_line list \<times> string list" where
  "tasks_of ev =
     (case derpolino_loop ev paths_for_derpolino of
        (Inl e, lg, urls) \<Rightarrow> (Inl e, Fetching_file_list # lg, urls)
      | (Inr u, lg, derpolino_urls_to_download) \<Rightarrow>
          (Inr (),
           Fetching_file_list # lg
             @ [Added_urls (length derpolino_urls_to_download), Downloading_swf,
                Downloading_language_files, Downloading_music_files],
           derpolino_urls_to_download @ static_urls))"

section \<open>Properties\<close>

subsection \<open>Notions the properties use\<close>

text \<open>A filesystem grows into another when every entry stays as it is, but for
  directories that appear where nothing was.\<close>

definition grows :: "filesystem \<Rightarrow> filesystem \<Rightarrow> bool" where
  "grows fs fs' = (\<forall>k. fs' k = fs k \<or> (fs k = None \<and> fs' k = Some Dir))"

text \<open>A session that never raises an exception outside \<^verbatim>\<open>Exception\<close>:
  neither the request nor the reading of a body is cancelled or interrupted.\<close>

definition never_cancelled :: "session \<Rightarrow> bool" where
  "never_cancelled sess =
     (\<forall>url. sess url \<noteq> Inl CancelledError
        \<and> (\<forall>resp. sess url = Inr resp \<longrightarrow> body resp \<noteq> Inl CancelledError))"

text \<open>The test of line 122: the URL starts with \<^verbatim>\<open>http://\<close> or
  \<^verbatim>\<open>https://\<close>.\<close>

definition is_absolute_url :: "string \<Rightarrow> bool" where
  "is_absolute_url u = (startswith u ''http://'' \<or> startswith u ''https://'')"

text \<open>The entries of a decoded reply that are strings, in their order.\<close>

definition string_entries :: "json list \<Rightarrow> string list" where
  "string_entries entries = concat (map (\<lambda>j. case j of JStr s \<Rightarrow> [s] | _ \<Rightarrow> []) entries)"

definition is_string :: "json \<Rightarrow> bool" where
  "is_string j = (case j of JStr s \<Rightarrow> True | _ \<Rightarrow> False)"

definition is_dict_or_list :: "json \<Rightarrow> bool" where
  "is_dict_or_list j = (case j of JDict items \<Rightarrow> True | JList xs \<Rightarrow> True | _ \<Rightarrow> False)"

text \<open>An environment that raises nothing outside \<^verbatim>\<open>Exception\<close>.\<close>

definition never_interrupted :: "env \<Rightarrow> bool" where
  "never_interrupted ev =
     (never_cancelled (session_get ev) \<and> (\<forall>c. json_loads ev c \<noteq> Inl CancelledError))"

text \<open>An example: the listing endpoint answers every segment with a JSON array
  that names \<^verbatim>\<open>a.png\<close> twice (the character \<open>0x22\<close> is the double quote).\<close>

definition duplicate_listing :: string where
  "duplicate_listing =
     ''['' @ [CHR 0x22] @ ''a.png'' @ [CHR 0x22] @ '', '' @ [CHR 0x22] @ ''a.png'' @ [CHR 0x22] @ '']''"

definition duplicate_env :: env where
  "duplicate_env =
     \<lparr>session_get = (\<lambda>u. Inr \<lparr>status = 200, body = Inr duplicate_listing\<rparr>),
      json_loads = (\<lambda>c. if c = duplicate_listing then Inr (JList [JStr ''a.png'', JStr ''a.png''])
                        else Inl JSONDecodeError)\<rparr>"

text \<open>The characters of the host of a well-formed URL: ASCII, no control
  character or space, none of \<^verbatim>\<open>/ ? # [ ]\<close>.\<close>

definition host_char :: "char \<Rightarrow> bool" where
  "host_char c =
     (\<not> netloc_delim c \<and> c \<noteq> CHR ''['' \<and> c \<noteq> CHR '']''
      \<and> \<not> c0_control_or_space c \<and> (of_char c :: nat) < 128)"

text \<open>The steps of the path mapper in the words of the specification: the path
  component of what follows the host (up to the query or the fragment, without the
  parameters of the last segment), and the removal of exactly one leading
  separator.\<close>

definition path_component :: "string \<Rightarrow> string" where
  "path_component rest =
     fst (splitparams (takeWhile (\<lambda>c. c \<noteq> CHR ''?'' \<and> c \<noteq> CHR ''#'') rest))"

definition strip_one_slash :: "string \<Rightarrow> string" where
  "strip_one_slash s = (case s of [] \<Rightarrow> [] | c # r \<Rightarrow> if c = CHR ''/'' then r else s)"




text \<open>An example of a console: a standard output whose encoding is ASCII. It
  can print a line when the strings the line formats are ASCII (the text of an
  exception is taken to be so).\<close>

fun line_strings :: "log_line \<Rightarrow> string list" where
  "line_strings (INFO_Processing url) = [url]"
| "line_strings (Creating_directory local_dir) = [local_dir]"
| "line_strings (SKIP local_filepath) = [local_filepath]"
| "line_strings (WARN_content_differs local_filepath) = [local_filepath]"
| "line_strings (WARN_could_not_read local_filepath e) = [local_filepath]"
| "line_strings (SAVE name local_dir) = [name, local_dir]"
| "line_strings (ERROR_not_found url) = [url]"
| "line_strings (ERROR_status url st) = [url]"
| "line_strings (NETWORK_ERROR url e) = [url]"
| "line_strings (OS_ERROR url local_filepath e) = [url, local_filepath]"
| "line_strings (UNEXPECTED_ERROR url e) = [url]"
| "line_strings line = []"

definition ascii_only :: "string \<Rightarrow> bool" where
  "ascii_only s = list_all (\<lambda>c. (of_char c :: nat) < 128) s"

definition ascii_stdout :: console where
  "ascii_stdout line = list_all ascii_only (line_strings line)"

text \<open>The size in bytes of the regular file at a path, if there is one.\<close>

definition file_size :: "filesystem \<Rightarrow> string \<Rightarrow> nat option" where
  "file_size fs p = (case stat fs p of Some (File c r w) \<Rightarrow> Some (length c) | _ \<Rightarrow> None)"

subsection \<open>The local store\<close>

lemma grows_refl: "grows fs fs"
  by (simp add: grows_def)

lemma grows_trans: "grows a b \<Longrightarrow> grows b c \<Longrightarrow> grows a c"
  unfolding grows_def by metis

lemma os_mkdir_grows: "os_mkdir fs p = Inr fs' \<Longrightarrow> grows fs fs'"
  by (auto simp: os_mkdir_def grows_def split: if_splits)

lemma os_mkdir_error: "os_mkdir fs p = Inl e \<Longrightarrow> is_OSError e"
  by (auto simp: os_mkdir_def is_OSError_def split: if_splits)

lemma makedirs_mkdir_grows: "makedirs_mkdir fs name ok = (r, fs') \<Longrightarrow> grows fs fs'"
  by (auto simp: makedirs_mkdir_def grows_refl os_mkdir_grows split: sum.splits if_splits)

lemma makedirs_mkdir_error: "makedirs_mkdir fs name ok = (Inl e, fs') \<Longrightarrow> is_OSError e"
  by (auto simp: makedirs_mkdir_def os_mkdir_error split: sum.splits if_splits)

lemma os_makedirs_grows: "os_makedirs fs name ok = (r, fs') \<Longrightarrow> grows fs fs'"
proof (induction fs name ok arbitrary: r fs' rule: os_makedirs.induct)
  case (1 fs name exist_ok)
  show ?case
  proof (cases "fst (makedirs_split name) \<noteq> [] \<and> snd (makedirs_split name) \<noteq> []
         \<and> \<not> os_path_exists fs (fst (makedirs_split name))")
    case False
    with "1.prems" have "makedirs_mkdir fs name exist_ok = (r, fs')"
      by (simp add: os_makedirs.simps [of fs name exist_ok])
    then show ?thesis by (rule makedirs_mkdir_grows)
  next
    case True
    obtain r1 fs1 where rec: "os_makedirs fs (fst (makedirs_split name)) exist_ok = (r1, fs1)"
      by (cases "os_makedirs fs (fst (makedirs_split name)) exist_ok")
    from "1.IH" [OF True rec] have g1: "grows fs fs1" .
    from "1.prems" True rec have
      "(if r1 = Inr () \<or> r1 = Inl FileExistsError then
               (if snd (makedirs_split name) = ''.'' then (Inr (), fs1)
                else makedirs_mkdir fs1 name exist_ok)
             else (r1, fs1)) = (r, fs')"
      by (simp add: os_makedirs.simps [of fs name exist_ok])
    then have "fs' = fs1 \<or> makedirs_mkdir fs1 name exist_ok = (r, fs')"
      by (auto split: if_splits)
    then show ?thesis
      using g1 makedirs_mkdir_grows grows_trans by blast
  qed
qed

lemma os_makedirs_error: "os_makedirs fs name ok = (Inl e, fs') \<Longrightarrow> is_OSError e"
proof (induction fs name ok arbitrary: e fs' rule: os_makedirs.induct)
  case (1 fs name exist_ok)
  show ?case
  proof (cases "fst (makedirs_split name) \<noteq> [] \<and> snd (makedirs_split name) \<noteq> []
         \<and> \<not> os_path_exists fs (fst (makedirs_split name))")
    case False
    with "1.prems" have "makedirs_mkdir fs name exist_ok = (Inl e, fs')"
      by (simp add: os_makedirs.simps [of fs name exist_ok])
    then show ?thesis by (rule makedirs_mkdir_error)
  next
    case True
    obtain r1 fs1 where rec: "os_makedirs fs (fst (makedirs_split name)) exist_ok = (r1, fs1)"
      by (cases "os_makedirs fs (fst (makedirs_split name)) exist_ok")
    from "1.prems" True rec have
      "(if r1 = Inr () \<or> r1 = Inl FileExistsError then
               (if snd (makedirs_split name) = ''.'' then (Inr (), fs1)
                else makedirs_mkdir fs1 name exist_ok)
             else (r1, fs1)) = (Inl e, fs')"
      by (simp add: os_makedirs.simps [of fs name exist_ok])
    then have "(r1 = Inl e \<and> fs1 = fs') \<or> makedirs_mkdir fs1 name exist_ok = (Inl e, fs')"
      by (auto split: if_splits)
    then show ?thesis
      using "1.IH" [OF True] rec makedirs_mkdir_error by blast
  qed
qed

lemma stat_grows:
  assumes "grows fs fs'"
  shows "stat fs' p = stat fs p \<or> stat fs' p = Some Dir"
proof -
  have a: "fs' p = fs p \<or> fs' p = Some Dir"
    using assms unfolding grows_def by blast
  have b: "fs' (rstrip_slash p) = fs (rstrip_slash p) \<or> fs' (rstrip_slash p) = Some Dir"
    using assms unfolding grows_def by blast
  show ?thesis
    using a b by (auto simp: stat_def)
qed

lemma makedirs_empty: "os_makedirs fs [] ok = (Inl OSError, fs)"
  by (simp add: os_makedirs.simps [of fs "[]" ok] makedirs_split_def os_path_split_def
      os_path_basename_def os_path_dirname_def upto_last_slash_def after_last_slash_def
      rstrip_slash_def makedirs_mkdir_def os_mkdir_def os_path_isdir_def stat_def)


lemma stat_upd_file:
  "p \<noteq> [] \<Longrightarrow> rstrip_slash p = p \<Longrightarrow> stat (fs(p \<mapsto> n)) p = Some n"
  by (simp add: stat_def)

lemma stat_upd_other_dir:
  assumes "stat fs d = Some Dir" and "fs p \<noteq> Some Dir"
  shows "stat (fs(p \<mapsto> n)) d = Some Dir"
  using assms by (auto simp: stat_def split: if_splits option.splits node.splits)


lemma make_local_dir_grows: "make_local_dir fs d = (r, lg, fs') \<Longrightarrow> grows fs fs'"
proof (cases "os_path_exists fs d")
  case True
  assume "make_local_dir fs d = (r, lg, fs')"
  with True show ?thesis by (simp add: make_local_dir_def grows_refl)
next
  case False
  assume a: "make_local_dir fs d = (r, lg, fs')"
  obtain r1 fs1 where m: "os_makedirs fs d True = (r1, fs1)"
    by (cases "os_makedirs fs d True")
  with a False have "fs1 = fs'" by (simp add: make_local_dir_def)
  with os_makedirs_grows [OF m] show ?thesis by simp
qed

lemma make_local_dir_log:
  "make_local_dir fs d = (r, lg, fs') \<Longrightarrow> lg = [] \<or> lg = [Creating_directory d]"
  by (cases "os_makedirs fs d True") (auto simp: make_local_dir_def split: if_splits)

lemma make_local_dir_error: "make_local_dir fs d = (Inl e, lg, fs') \<Longrightarrow> is_OSError e"
proof (cases "os_path_exists fs d")
  case True
  assume "make_local_dir fs d = (Inl e, lg, fs')"
  with True show ?thesis by (simp add: make_local_dir_def)
next
  case False
  assume a: "make_local_dir fs d = (Inl e, lg, fs')"
  obtain r1 fs1 where m: "os_makedirs fs d True = (r1, fs1)"
    by (cases "os_makedirs fs d True")
  with a False have "r1 = Inl e" by (simp add: make_local_dir_def)
  with os_makedirs_error m show ?thesis by blast
qed

lemma make_local_dir_empty: "make_local_dir fs [] = (Inl OSError, [Creating_directory []], fs)"
  by (simp add: make_local_dir_def makedirs_empty os_path_exists_def stat_def)

lemma make_local_dir_exists:
  "os_path_exists fs d \<Longrightarrow> make_local_dir fs d = (Inr (), [], fs)"
  by (simp add: make_local_dir_def)

lemma write_content_fresh:
  assumes "stat fs p = None" and "write_content fs p c = (Inr (), lg, fs')"
  shows "lg = [SAVE (os_path_basename p) (os_path_dirname p)] \<and> fs' = fs(p \<mapsto> File c True True)
    \<and> p \<noteq> [] \<and> rstrip_slash p = p \<and> parent_is_dir fs p"
proof (cases "p \<noteq> [] \<and> rstrip_slash p = p \<and> parent_is_dir fs p")
  case True
  with assms show ?thesis by (simp add: write_content_def write_file_def)
next
  case False
  with assms show ?thesis by (simp add: write_content_def write_file_def)
qed

lemma write_content_dir: "stat fs p = Some Dir \<Longrightarrow> write_content fs p c = (Inl OSError, [], fs)"
  by (simp add: write_content_def write_file_def)

lemma compare_and_write_dir:
  "stat fs p = Some Dir \<Longrightarrow> fst (compare_and_write fs p c) = Inl OSError"
  by (simp add: compare_and_write_def os_path_exists_def read_file_def is_Exception_def
      write_content_dir printed_before_def)

lemma compare_and_write_fresh:
  "stat fs p = None \<Longrightarrow> compare_and_write fs p c = write_content fs p c"
  by (simp add: compare_and_write_def os_path_exists_def)

lemma compare_and_write_same:
  "stat fs p = Some (File c True w) \<Longrightarrow> compare_and_write fs p c = (Inr (), [SKIP p], fs)"
  by (simp add: compare_and_write_def os_path_exists_def read_file_def)


lemma persist_fresh:
  assumes fresh: "stat fs p = None"
      and first: "persist fs p c = (Inr (), log1, fs1)"
  shows "(log1 = [SAVE (os_path_basename p) (os_path_dirname p)]
          \<or> log1 = [Creating_directory (os_path_dirname p),
                     SAVE (os_path_basename p) (os_path_dirname p)])
       \<and> stat fs1 p = Some (File c True True)
       \<and> os_path_exists fs1 (os_path_dirname p)"
proof -
  define d where "d = os_path_dirname p"
  obtain r0 lg0 fs0 where mk: "make_local_dir fs d = (r0, lg0, fs0)"
    by (cases "make_local_dir fs d") auto
  from first mk have r0: "r0 = Inr ()"
    by (cases r0) (auto simp: persist_def d_def)
  with first mk obtain lg1 where cw: "compare_and_write fs0 p c = (Inr (), lg1, fs1)"
    and l1: "log1 = lg0 @ lg1"
    by (cases "compare_and_write fs0 p c") (auto simp: persist_def d_def printed_before_def)
  have "stat fs0 p = stat fs p \<or> stat fs0 p = Some Dir"
    using make_local_dir_grows [OF mk] by (rule stat_grows)
  moreover have "stat fs0 p \<noteq> Some Dir"
    using compare_and_write_dir [of fs0 p c] cw by auto
  ultimately have fresh0: "stat fs0 p = None"
    using fresh by simp
  with cw have wc: "write_content fs0 p c = (Inr (), lg1, fs1)"
    by (simp add: compare_and_write_fresh)
  note w = write_content_fresh [OF fresh0 wc]
  have dne: "d \<noteq> []"
    using make_local_dir_empty [of fs] mk r0 by (cases "d = []") auto
  with w have dir0: "stat fs0 d = Some Dir"
    by (simp add: parent_is_dir_def os_path_isdir_def d_def)
  have key0: "fs0 p = None"
    using fresh0 w by (simp add: stat_def)
  have fs1: "fs1 = fs0(p \<mapsto> File c True True)"
    using w by simp
  have dir1: "stat fs1 d = Some Dir"
    unfolding fs1 using dir0 key0 by (intro stat_upd_other_dir) auto
  have file1: "stat fs1 p = Some (File c True True)"
    unfolding fs1 using w by (simp add: stat_upd_file)
  have "log1 = [SAVE (os_path_basename p) d]
      \<or> log1 = [Creating_directory d, SAVE (os_path_basename p) d]"
    using make_local_dir_log [OF mk] l1 w by (auto simp: d_def)
  then show ?thesis
    using file1 dir1 by (simp add: d_def os_path_exists_def)
qed

lemma persist_same:
  assumes "stat fs p = Some (File c True w)" and "os_path_exists fs (os_path_dirname p)"
  shows "persist fs p c = (Inr (), [SKIP p], fs)"
  using assms
  by (simp add: persist_def make_local_dir_exists compare_and_write_same printed_before_def)

text \<open>
  C1. Where nothing exists at the local path and the first call (lines 39 to 61)
  ends without a filesystem error, the first call prints \<^verbatim>\<open>[SAVE]\<close> with neither
  \<^verbatim>\<open>[SKIP]\<close> nor \<^verbatim>\<open>[WARN]\<close> (the outcome Saved), after it the file holds
  exactly the bytes given, and a second call with the same bytes prints
  \<^verbatim>\<open>[SKIP]\<close> only and leaves the filesystem as it is (the outcome Skipped).
\<close>

theorem persist_twice_saved_then_skipped:
  assumes fresh: "stat fs p = None"
      and first: "persist fs p c = (Inr (), log1, fs1)"
  shows "(log1 = [SAVE (os_path_basename p) (os_path_dirname p)]
          \<or> log1 = [Creating_directory (os_path_dirname p),
                     SAVE (os_path_basename p) (os_path_dirname p)])
       \<and> stat fs1 p = Some (File c True True)
       \<and> persist fs1 p c = (Inr (), [SKIP p], fs1)"
proof -
  note f = persist_fresh [OF fresh first]
  from f have "persist fs1 p c = (Inr (), [SKIP p], fs1)"
    by (intro persist_same [where w = True]) simp_all
  with f show ?thesis by simp
qed

theorem persist_twice_saved_then_skipped_witness:
  "stat (snd (snd (persist (Map.empty(''TFM_DOWNLOADED_ASSETS'' \<mapsto> Dir))
       ''TFM_DOWNLOADED_ASSETS/images/x.png'' ''hello'')))
     ''TFM_DOWNLOADED_ASSETS/images/x.png'' = Some (File ''hello'' True True)
   \<and> persist (snd (snd (persist (Map.empty(''TFM_DOWNLOADED_ASSETS'' \<mapsto> Dir))
       ''TFM_DOWNLOADED_ASSETS/images/x.png'' ''hello'')))
       ''TFM_DOWNLOADED_ASSETS/images/x.png'' ''hello''
     = (Inr (), [SKIP ''TFM_DOWNLOADED_ASSETS/images/x.png''],
        snd (snd (persist (Map.empty(''TFM_DOWNLOADED_ASSETS'' \<mapsto> Dir))
          ''TFM_DOWNLOADED_ASSETS/images/x.png'' ''hello'')))"
proof -
  define fs0 :: filesystem where "fs0 = Map.empty(''TFM_DOWNLOADED_ASSETS'' \<mapsto> Dir)"
  define p where "p = ''TFM_DOWNLOADED_ASSETS/images/x.png''"
  have fresh: "stat fs0 p = None"
    unfolding fs0_def p_def by code_simp
  have "fst (persist fs0 p ''hello'') = Inr ()"
    unfolding fs0_def p_def by code_simp
  then have first: "persist fs0 p ''hello''
      = (Inr (), fst (snd (persist fs0 p ''hello'')), snd (snd (persist fs0 p ''hello'')))"
    by (metis prod.collapse)
  show ?thesis
    using persist_twice_saved_then_skipped [OF fresh first]
    by (simp add: fs0_def p_def)
qed



subsection \<open>\<^verbatim>\<open>download_item\<close>\<close>

lemma download_try_get_raises:
  "sess url = Inl e \<Longrightarrow>
   download_try sess url base fs = ((Inl e, [INFO_Processing url], fs), ''N/A'')"
  by (simp add: download_try_def)

lemma download_try_read_raises:
  "sess url = Inr resp \<Longrightarrow> status resp = 200 \<Longrightarrow> body resp = Inl e \<Longrightarrow>
   download_try sess url base fs = ((Inl e, [INFO_Processing url], fs), ''N/A'')"
  by (simp add: download_try_def)

lemma download_try_not_200:
  "sess url = Inr resp \<Longrightarrow> status resp \<noteq> 200 \<Longrightarrow>
   download_try sess url base fs =
     ((Inr (), [INFO_Processing url,
                if status resp = 404 then ERROR_not_found url
                else ERROR_status url (status resp)], fs), ''N/A'')"
  by (simp add: download_try_def)

lemma download_try_no_path:
  "sess url = Inr resp \<Longrightarrow> status resp = 200 \<Longrightarrow> body resp = Inr c \<Longrightarrow>
   local_filepath_of url base = Inl e \<Longrightarrow>
   download_try sess url base fs = ((Inl e, [INFO_Processing url], fs), ''N/A'')"
  by (simp add: download_try_def)

lemma download_try_persist:
  "sess url = Inr resp \<Longrightarrow> status resp = 200 \<Longrightarrow> body resp = Inr c \<Longrightarrow>
   local_filepath_of url base = Inr p \<Longrightarrow>
   download_try sess url base fs = (printed_before [INFO_Processing url] (persist fs p c), p)"
  by (simp add: download_try_def)

lemma download_try_cases:
  obtains (get_raises) e where "sess url = Inl e"
  | (not_200) resp where "sess url = Inr resp" "status resp \<noteq> 200"
  | (read_raises) resp e where "sess url = Inr resp" "status resp = 200" "body resp = Inl e"
  | (no_path) resp c e where "sess url = Inr resp" "status resp = 200" "body resp = Inr c"
      "local_filepath_of url base = Inl e"
  | (persist) resp c p where "sess url = Inr resp" "status resp = 200" "body resp = Inr c"
      "local_filepath_of url base = Inr p"
proof (cases "sess url")
  case (Inl e)
  then show ?thesis by (rule get_raises)
next
  case (Inr resp)
  show ?thesis
  proof (cases "status resp = 200")
    case False
    with Inr show ?thesis by (intro not_200)
  next
    case True
    show ?thesis
    proof (cases "body resp")
      case (Inl e)
      with Inr True read_raises show ?thesis by blast
    next
      case c: (Inr c)
      show ?thesis
      proof (cases "local_filepath_of url base")
        case (Inl e)
        with Inr True c no_path show ?thesis by blast
      next
        case p: (Inr p)
        with Inr True c persist show ?thesis by blast
      qed
    qed
  qed
qed

lemma download_item_unreachable:
  "sess url = Inl ClientError \<Longrightarrow>
   download_item sess url base fs =
     (Inr (), [INFO_Processing url, NETWORK_ERROR url ClientError], fs)"
  by (simp add: download_item_def download_try_get_raises)

lemma print_line_printed: "out line \<Longrightarrow> print_line out line fs = (Inr (), [line], fs)"
  by (simp add: print_line_def)

lemma write_content_on_printing:
  "\<forall>line. out line \<Longrightarrow> write_content_on out fs p c = write_content fs p c"
  by (simp add: write_content_on_def write_content_def print_line_printed split: sum.splits)

lemma compare_and_write_on_printing:
  "\<forall>line. out line \<Longrightarrow> compare_and_write_on out fs p c = compare_and_write fs p c"
  by (simp add: compare_and_write_on_def compare_and_write_def read_failed_on_def and_then_def
      print_line_printed write_content_on_printing split: sum.splits)

lemma make_local_dir_on_printing:
  "\<forall>line. out line \<Longrightarrow> make_local_dir_on out fs d = make_local_dir fs d"
  by (cases "os_makedirs fs d True")
     (simp add: make_local_dir_on_def make_local_dir_def and_then_def print_line_printed
        printed_before_def)

lemma persist_on_printing:
  assumes "\<forall>line. out line"
  shows "persist_on out fs p c = persist fs p c"
proof -
  obtain r lg fs' where m: "make_local_dir fs (os_path_dirname p) = (r, lg, fs')"
    by (cases "make_local_dir fs (os_path_dirname p)") auto
  then show ?thesis
    using assms
    by (cases r)
       (simp_all add: persist_on_def persist_def and_then_def make_local_dir_on_printing
          compare_and_write_on_printing)
qed

text \<open>On a console that can print every line, the coroutine is the
  \<^verbatim>\<open>download_item\<close> of the subsection before.\<close>

lemma download_item_on_printing:
  assumes "\<forall>line. out line"
  shows "download_item_on out sess url base fs = download_item sess url base fs"
proof -
  have t: "download_try_on out sess url base fs = download_try sess url base fs"
    using assms
    by (simp add: download_try_on_def download_try_def persist_on_printing print_line_printed
        printed_before_def split: sum.splits)
  obtain r lg fs' lp where d: "download_try sess url base fs = ((r, lg, fs'), lp)"
    by (cases "download_try sess url base fs") auto
  show ?thesis
    using assms d
    by (cases r)
       (simp_all add: download_item_on_def download_item_def t print_line_printed
          printed_before_def)
qed

text \<open>
  C3 fails of the code. The \<^verbatim>\<open>print\<close> of line 19 is the first statement of the
  \<^verbatim>\<open>try\<close>. Where standard output cannot encode the URL, it raises
  \<^verbatim>\<open>UnicodeEncodeError\<close>; the handler \<^verbatim>\<open>except Exception\<close> catches it and
  prints the URL again (line 73), which raises inside the handler: the exception
  leaves \<^verbatim>\<open>download_item\<close>, with nothing printed and the filesystem as it was.
\<close>

theorem unprintable_url_leaves_download_item:
  assumes "\<not> out (INFO_Processing url)"
      and "\<not> out (UNEXPECTED_ERROR url UnicodeEncodeError)"
  shows "download_item_on out sess url base fs = (Inl UnicodeEncodeError, [], fs)"
  using assms
  by (simp add: download_item_on_def download_try_on_def is_OSError_def is_Exception_def
      print_line_def printed_before_def)

theorem unprintable_url_leaves_download_item_witness:
  "download_item_on ascii_stdout (\<lambda>u. Inr \<lparr>status = 200, body = Inr ''hello''\<rparr>)
     (''https://www.transformice.com/'' @ [CHR 0xC3, CHR 0xA9] @ ''.png'')
     ''TFM_DOWNLOADED_ASSETS'' Map.empty
   = (Inl UnicodeEncodeError, [], Map.empty)"
proof -
  define url where "url = ''https://www.transformice.com/'' @ [CHR 0xC3, CHR 0xA9] @ ''.png''"
  have a: "\<not> ascii_stdout (INFO_Processing url)"
    and b: "\<not> ascii_stdout (UNEXPECTED_ERROR url UnicodeEncodeError)"
    unfolding url_def by code_simp+
  show ?thesis
    using unprintable_url_leaves_download_item [OF a b]
    by (simp add: url_def)
qed

lemma download_item_store:
  "snd (snd (download_item sess url base fs)) = snd (snd (fst (download_try sess url base fs)))"
proof -
  obtain r lg fs' lp where t: "download_try sess url base fs = ((r, lg, fs'), lp)"
    by (cases "download_try sess url base fs") auto
  then show ?thesis
    by (cases r) (simp_all add: download_item_def)
qed

lemma download_item_store_change:
  assumes "snd (snd (download_item sess url base fs)) \<noteq> fs"
  shows "\<exists>resp c. sess url = Inr resp \<and> status resp = 200 \<and> body resp = Inr c"
proof (cases rule: download_try_cases [where sess = sess and url = url and base = base])
  case (get_raises e)
  with assms show ?thesis
    by (simp add: download_item_store download_try_get_raises)
next
  case (not_200 resp)
  with assms show ?thesis by (simp add: download_item_store download_try_not_200)
next
  case (read_raises resp e)
  with assms show ?thesis by (simp add: download_item_store download_try_read_raises)
next
  case (no_path resp c e)
  then show ?thesis by blast
next
  case (persist resp c p)
  then show ?thesis by blast
qed

text \<open>
  C10. If \<^verbatim>\<open>download_item\<close> leaves the filesystem other than it found it, then
  the request returned status 200 and the whole body was read; and if the request
  or the reading of the body raises a \<^verbatim>\<open>ClientError\<close>, the filesystem is left as
  it was, with the network error printed.
\<close>

theorem store_untouched_without_body:
  "(snd (snd (download_item sess url base fs)) \<noteq> fs \<longrightarrow>
      (\<exists>resp c. sess url = Inr resp \<and> status resp = 200 \<and> body resp = Inr c))
   \<and> (sess url = Inl ClientError
        \<or> (\<exists>resp. sess url = Inr resp \<and> status resp = 200 \<and> body resp = Inl ClientError) \<longrightarrow>
      download_item sess url base fs =
        (Inr (), [INFO_Processing url, NETWORK_ERROR url ClientError], fs))"
proof -
  have "download_item sess url base fs =
      (Inr (), [INFO_Processing url, NETWORK_ERROR url ClientError], fs)"
    if "sess url = Inr resp" "status resp = 200" "body resp = Inl ClientError" for resp
    using that by (simp add: download_item_def download_try_read_raises)
  then show ?thesis
    using download_item_store_change [of sess url base fs] download_item_unreachable [of sess url base fs]
    by blast
qed

theorem store_untouched_without_body_witness:
  "download_item (\<lambda>u. Inr \<lparr>status = 200, body = Inl ClientError\<rparr>)
     ''http://transformice.com/langues/tfz_en'' ''TFM_DOWNLOADED_ASSETS'' Map.empty
   = (Inr (),
      [INFO_Processing ''http://transformice.com/langues/tfz_en'',
       NETWORK_ERROR ''http://transformice.com/langues/tfz_en'' ClientError],
      Map.empty)"
  using store_untouched_without_body
    [of "\<lambda>u. Inr \<lparr>status = 200, body = Inl ClientError\<rparr>"
        "''http://transformice.com/langues/tfz_en''" "''TFM_DOWNLOADED_ASSETS''" Map.empty]
  by simp

text \<open>
  C5. For a reply whose status is not 200, \<^verbatim>\<open>download_item\<close> prints the line
  for 404 or the line with the status, and leaves the filesystem as it was: no
  directory is made and no file written. For a reply with status 200 and the body
  \<^verbatim>\<open>hello\<close>, where nothing exists at the local path and the body of the
  \<^verbatim>\<open>try\<close> raises nothing, the file at the local path has 5 bytes afterwards.
\<close>

theorem status_decides_the_write:
  assumes reply: "sess url = Inr resp"
  shows "(status resp \<noteq> 200 \<longrightarrow>
            download_item sess url base fs =
              (Inr (),
               [INFO_Processing url,
                if status resp = 404 then ERROR_not_found url
                else ERROR_status url (status resp)],
               fs))
       \<and> (status resp = 200 \<and> body resp = Inr ''hello''
            \<and> local_filepath_of url base = Inr p \<and> stat fs p = None
            \<and> fst (fst (download_try sess url base fs)) = Inr () \<longrightarrow>
            file_size (snd (snd (download_item sess url base fs))) p = Some 5)"
proof -
  have a: "download_item sess url base fs =
      (Inr (),
       [INFO_Processing url,
        if status resp = 404 then ERROR_not_found url else ERROR_status url (status resp)],
       fs)"
    if "status resp \<noteq> 200"
    using reply that by (simp add: download_item_def download_try_not_200)
  have b: "file_size (snd (snd (download_item sess url base fs))) p = Some 5"
    if st: "status resp = 200" and bd: "body resp = Inr ''hello''"
      and lp: "local_filepath_of url base = Inr p" and fresh: "stat fs p = None"
      and ok: "fst (fst (download_try sess url base fs)) = Inr ()"
  proof -
    obtain r lg fs' where pr: "persist fs p ''hello'' = (r, lg, fs')"
      by (cases "persist fs p ''hello''") auto
    have t: "download_try sess url base fs = ((r, INFO_Processing url # lg, fs'), p)"
      using reply st bd lp pr by (simp add: download_try_persist printed_before_def)
    with ok have r: "r = Inr ()" by simp
    with pr have "persist fs p ''hello'' = (Inr (), lg, fs')" by simp
    from persist_fresh [OF fresh this] have "stat fs' p = Some (File ''hello'' True True)"
      by simp
    moreover have "snd (snd (download_item sess url base fs)) = fs'"
      using t by (simp add: download_item_store)
    ultimately show ?thesis by (simp add: file_size_def)
  qed
  show ?thesis using a b by blast
qed


theorem status_decides_the_write_witness:
  "download_item (\<lambda>u. Inr \<lparr>status = 404, body = Inr []\<rparr>)
     ''https://www.transformice.com/images/x.png'' ''TFM_DOWNLOADED_ASSETS''
     (Map.empty(''TFM_DOWNLOADED_ASSETS'' \<mapsto> Dir))
   = (Inr (),
      [INFO_Processing ''https://www.transformice.com/images/x.png'',
       ERROR_not_found ''https://www.transformice.com/images/x.png''],
      Map.empty(''TFM_DOWNLOADED_ASSETS'' \<mapsto> Dir))
   \<and> file_size
        (snd (snd (download_item (\<lambda>u. Inr \<lparr>status = 200, body = Inr ''hello''\<rparr>)
           ''https://www.transformice.com/images/x.png'' ''TFM_DOWNLOADED_ASSETS''
           (Map.empty(''TFM_DOWNLOADED_ASSETS'' \<mapsto> Dir)))))
        ''TFM_DOWNLOADED_ASSETS/images/x.png'' = Some 5"
proof -
  define url where "url = ''https://www.transformice.com/images/x.png''"
  define fs0 :: filesystem where "fs0 = Map.empty(''TFM_DOWNLOADED_ASSETS'' \<mapsto> Dir)"
  define s404 :: session where "s404 = (\<lambda>u. Inr \<lparr>status = 404, body = Inr []\<rparr>)"
  define s200 :: session where "s200 = (\<lambda>u. Inr \<lparr>status = 200, body = Inr ''hello''\<rparr>)"
  have r404: "s404 url = Inr \<lparr>status = 404, body = Inr []\<rparr>"
    and r200: "s200 url = Inr \<lparr>status = 200, body = Inr ''hello''\<rparr>"
    by (simp_all add: s404_def s200_def)
  have lp: "local_filepath_of url ''TFM_DOWNLOADED_ASSETS''
      = Inr ''TFM_DOWNLOADED_ASSETS/images/x.png''"
    unfolding url_def by code_simp
  have fresh: "stat fs0 ''TFM_DOWNLOADED_ASSETS/images/x.png'' = None"
    unfolding fs0_def by code_simp
  have ok: "fst (fst (download_try s200 url ''TFM_DOWNLOADED_ASSETS'' fs0)) = Inr ()"
    unfolding s200_def url_def fs0_def by code_simp
  show ?thesis
    using status_decides_the_write [where sess = s404 and url = url
        and base = "''TFM_DOWNLOADED_ASSETS''" and fs = fs0, OF r404]
      status_decides_the_write [where sess = s200 and url = url
        and base = "''TFM_DOWNLOADED_ASSETS''" and fs = fs0
        and p = "''TFM_DOWNLOADED_ASSETS/images/x.png''", OF r200]
      lp fresh ok
    by (simp add: url_def fs0_def s404_def s200_def)
qed


subsection \<open>The discovered URLs and the list of tasks\<close>

lemma full_url_of_absolute: "is_absolute_url (full_url_of s)"
  by (simp add: full_url_of_def is_absolute_url_def startswith_def)

lemma collect_urls_fst: "fst (collect_urls entries) = map full_url_of (string_entries entries)"
proof (induction entries)
  case Nil
  show ?case by (simp add: string_entries_def)
next
  case (Cons j entries)
  then show ?case
    by (cases j; cases "collect_urls entries") (simp_all add: string_entries_def)
qed

lemma collect_urls_snd:
  "snd (collect_urls entries) = map WARN_non_string (filter (\<lambda>j. \<not> is_string j) entries)"
proof (induction entries)
  case Nil
  show ?case by simp
next
  case (Cons j entries)
  then show ?case
    by (cases j; cases "collect_urls entries") (simp_all add: is_string_def)
qed

lemma derpolino_segment_decoded:
  assumes "session_get ev (php_url_of seg) = Inr resp" and "status resp = 200"
      and "body resp = Inr content" and "json_loads ev content = Inr data"
  shows "derpolino_segment ev seg =
     (Inr (),
      INFO_Fetching (php_url_of seg) # snd (partial_urls_of (php_url_of seg) data)
        @ snd (collect_urls (fst (partial_urls_of (php_url_of seg) data))),
      fst (collect_urls (fst (partial_urls_of (php_url_of seg) data))))"
  using assms
  by (cases "partial_urls_of (php_url_of seg) data";
      cases "collect_urls (fst (partial_urls_of (php_url_of seg) data))")
     (simp add: derpolino_segment_def)

lemma derpolino_segment_urls:
  "\<exists>entries. snd (snd (derpolino_segment ev seg)) = map full_url_of (string_entries entries)"
proof (cases "\<exists>resp content data. session_get ev (php_url_of seg) = Inr resp \<and> status resp = 200
    \<and> body resp = Inr content \<and> json_loads ev content = Inr data")
  case True
  then obtain resp content data where
    "session_get ev (php_url_of seg) = Inr resp" "status resp = 200"
    "body resp = Inr content" "json_loads ev content = Inr data"
    by blast
  from derpolino_segment_decoded [OF this] show ?thesis
    by (simp add: collect_urls_fst) blast
next
  case False
  then have "snd (snd (derpolino_segment ev seg)) = []"
    by (auto simp: derpolino_segment_def Let_def split: sum.splits)
  then show ?thesis
    by (intro exI [of _ "[]"]) (simp add: string_entries_def)
qed

lemma derpolino_segment_absolute:
  "u \<in> set (snd (snd (derpolino_segment ev seg))) \<Longrightarrow> is_absolute_url u"
  using derpolino_segment_urls [of ev seg] full_url_of_absolute by auto

lemma derpolino_loop_absolute:
  "u \<in> set (snd (snd (derpolino_loop ev segs))) \<Longrightarrow> is_absolute_url u"
proof (induction segs)
  case Nil
  then show ?case by simp
next
  case (Cons seg segs)
  obtain r lg urls where s: "derpolino_segment ev seg = (r, lg, urls)"
    by (cases "derpolino_segment ev seg") auto
  obtain r' lg' urls' where l: "derpolino_loop ev segs = (r', lg', urls')"
    by (cases "derpolino_loop ev segs") auto
  from Cons.prems s l have "u \<in> set urls \<or> u \<in> set urls'"
    by (cases r) auto
  then show ?case
    using derpolino_segment_absolute [of u ev seg] s Cons.IH l by auto
qed

lemma static_urls_absolute: "list_all is_absolute_url static_urls"
  by code_simp

lemma tasks_of_absolute:
  "u \<in> set (snd (snd (tasks_of ev))) \<Longrightarrow> is_absolute_url u"
proof -
  assume a: "u \<in> set (snd (snd (tasks_of ev)))"
  obtain r lg urls where l: "derpolino_loop ev paths_for_derpolino = (r, lg, urls)"
    by (cases "derpolino_loop ev paths_for_derpolino") auto
  from a l have "u \<in> set urls \<or> u \<in> set static_urls"
    by (cases r) (auto simp: tasks_of_def)
  then show ?thesis
    using derpolino_loop_absolute [of u ev paths_for_derpolino] l static_urls_absolute
    by (auto simp: list_all_iff)
qed

text \<open>
  C7. Every URL of the list \<^verbatim>\<open>tasks\<close> starts with \<^verbatim>\<open>http://\<close> or
  \<^verbatim>\<open>https://\<close>. A discovered entry that starts with neither becomes
  \<^verbatim>\<open>https://www.transformice.com/\<close> followed by the entry without its leading
  slashes, and an entry that starts with one of them is kept; the URLs appended
  are those of the string entries, in their order, and each entry that is not a
  string gives a warning and no URL.
\<close>

theorem tasks_are_absolute_urls:
  "(\<forall>u \<in> set (snd (snd (tasks_of ev))). is_absolute_url u)
   \<and> full_url_of s =
       (if is_absolute_url s then s else ''https://www.transformice.com/'' @ lstrip_slash s)
   \<and> fst (collect_urls entries) = map full_url_of (string_entries entries)
   \<and> snd (collect_urls entries) = map WARN_non_string (filter (\<lambda>j. \<not> is_string j) entries)"
  using tasks_of_absolute [of _ ev] collect_urls_fst collect_urls_snd
  by (simp add: full_url_of_def is_absolute_url_def)


theorem tasks_are_absolute_urls_witness:
  "is_absolute_url ''http://transformice.com/langues/tfz_en''
   \<and> fst (collect_urls [JStr ''/images/a.png'', JInt 3, JStr ''http://example.org/b.png''])
       = [''https://www.transformice.com/images/a.png'', ''http://example.org/b.png'']
   \<and> snd (collect_urls [JStr ''/images/a.png'', JInt 3, JStr ''http://example.org/b.png''])
       = [WARN_non_string (JInt 3)]"
proof -
  have m: "''http://transformice.com/langues/tfz_en'' \<in> set (snd (snd (tasks_of duplicate_env)))"
    by code_simp
  have e: "map full_url_of
      (string_entries [JStr ''/images/a.png'', JInt 3, JStr ''http://example.org/b.png''])
      = [''https://www.transformice.com/images/a.png'', ''http://example.org/b.png'']"
    by code_simp
  have f: "filter (\<lambda>j. \<not> is_string j)
      [JStr ''/images/a.png'', JInt 3, JStr ''http://example.org/b.png''] = [JInt 3]"
    by (simp add: is_string_def)
  show ?thesis
    using tasks_are_absolute_urls [of duplicate_env "[]"
        "[JStr ''/images/a.png'', JInt 3, JStr ''http://example.org/b.png'']"] m e f
    by auto
qed




lemma derpolino_segment_returns:
  assumes "never_interrupted ev"
  shows "fst (derpolino_segment ev seg) = Inr ()"
proof -
  have g: "session_get ev (php_url_of seg) \<noteq> Inl CancelledError"
    and b: "\<And>resp. session_get ev (php_url_of seg) = Inr resp \<Longrightarrow> body resp \<noteq> Inl CancelledError"
    and j: "\<And>c. json_loads ev c \<noteq> Inl CancelledError"
    using assms by (auto simp: never_interrupted_def never_cancelled_def)
  show ?thesis
  proof (cases "session_get ev (php_url_of seg)")
    case (Inl e)
    with g show ?thesis
      by (simp add: derpolino_segment_def Let_def is_Exception_def)
  next
    case (Inr resp)
    show ?thesis
    proof (cases "status resp = 200")
      case False
      with Inr show ?thesis by (simp add: derpolino_segment_def Let_def)
    next
      case True
      show ?thesis
      proof (cases "body resp")
        case (Inl e)
        with Inr True b [OF Inr] show ?thesis
          by (simp add: derpolino_segment_def Let_def is_Exception_def)
      next
        case c: (Inr content)
        show ?thesis
        proof (cases "json_loads ev content")
          case (Inl e)
          with Inr True c j [of content] show ?thesis
            by (simp add: derpolino_segment_def Let_def is_Exception_def)
        next
          case d: (Inr data)
          from derpolino_segment_decoded [OF Inr True c d] show ?thesis by simp
        qed
      qed
    qed
  qed
qed

lemma derpolino_loop_concat:
  assumes "never_interrupted ev"
  shows "fst (derpolino_loop ev segs) = Inr ()
       \<and> snd (snd (derpolino_loop ev segs))
           = concat (map (\<lambda>seg. snd (snd (derpolino_segment ev seg))) segs)"
proof (induction segs)
  case Nil
  show ?case by simp
next
  case (Cons seg segs)
  obtain r lg urls where s: "derpolino_segment ev seg = (r, lg, urls)"
    by (cases "derpolino_segment ev seg") auto
  with derpolino_segment_returns [OF assms, of seg] have r: "r = Inr ()" by simp
  obtain r' lg' urls' where l: "derpolino_loop ev segs = (r', lg', urls')"
    by (cases "derpolino_loop ev segs") auto
  show ?case
    using s r l Cons.IH by simp
qed

lemma length_static_urls: "length static_urls = 40"
  by code_simp

text \<open>
  C6. For a segment whose reply has a status other than 200, or cannot be decoded
  as JSON, or decodes to a value that is neither a dict nor a list, the round of
  the loop prints one error line, appends no URL and raises nothing. Where the
  environment raises nothing outside \<^verbatim>\<open>Exception\<close>, the building of
  \<^verbatim>\<open>tasks\<close> ends without an exception, and \<^verbatim>\<open>tasks\<close> is what the segments
  gave followed by all 40 fixed URLs (the SWF files, the language files, the music
  files).
\<close>

theorem discovery_failure_keeps_the_batch:
  assumes "never_interrupted ev"
  shows "(session_get ev (php_url_of seg) = Inr resp \<and> status resp \<noteq> 200 \<longrightarrow>
            derpolino_segment ev seg =
              (Inr (),
               [INFO_Fetching (php_url_of seg),
                ERROR_fetch_status (php_url_of seg) (status resp)],
               []))
       \<and> (session_get ev (php_url_of seg) = Inr resp \<and> status resp = 200
            \<and> body resp = Inr content \<and> json_loads ev content = Inl JSONDecodeError \<longrightarrow>
            derpolino_segment ev seg =
              (Inr (),
               [INFO_Fetching (php_url_of seg), ERROR_decode_json (php_url_of seg)],
               []))
       \<and> (session_get ev (php_url_of seg) = Inr resp \<and> status resp = 200
            \<and> body resp = Inr content \<and> json_loads ev content = Inr data
            \<and> \<not> is_dict_or_list data \<longrightarrow>
            derpolino_segment ev seg =
              (Inr (),
               [INFO_Fetching (php_url_of seg), ERROR_json_structure (php_url_of seg)],
               []))
       \<and> fst (tasks_of ev) = Inr ()
       \<and> snd (snd (tasks_of ev))
           = concat (map (\<lambda>seg. snd (snd (derpolino_segment ev seg))) paths_for_derpolino)
             @ static_urls
       \<and> length static_urls = 40"
proof -
  have a: "derpolino_segment ev seg =
      (Inr (), [INFO_Fetching (php_url_of seg),
                ERROR_fetch_status (php_url_of seg) (status resp)], [])"
    if "session_get ev (php_url_of seg) = Inr resp" "status resp \<noteq> 200"
    using that by (simp add: derpolino_segment_def Let_def)
  have b: "derpolino_segment ev seg =
      (Inr (), [INFO_Fetching (php_url_of seg), ERROR_decode_json (php_url_of seg)], [])"
    if "session_get ev (php_url_of seg) = Inr resp" "status resp = 200"
      "body resp = Inr content" "json_loads ev content = Inl JSONDecodeError"
    using that by (simp add: derpolino_segment_def Let_def)
  have c: "derpolino_segment ev seg =
      (Inr (), [INFO_Fetching (php_url_of seg), ERROR_json_structure (php_url_of seg)], [])"
    if r: "session_get ev (php_url_of seg) = Inr resp" "status resp = 200"
      "body resp = Inr content" "json_loads ev content = Inr data"
      and n: "\<not> is_dict_or_list data"
  proof -
    from n have "partial_urls_of (php_url_of seg) data
        = ([], [ERROR_json_structure (php_url_of seg)])"
      by (cases data) (simp_all add: partial_urls_of_def is_dict_or_list_def)
    with derpolino_segment_decoded [OF r] show ?thesis by simp
  qed
  obtain r lg urls where l: "derpolino_loop ev paths_for_derpolino = (r, lg, urls)"
    by (cases "derpolino_loop ev paths_for_derpolino") auto
  with derpolino_loop_concat [OF assms, of paths_for_derpolino]
  have r: "r = Inr ()"
    and u: "urls = concat (map (\<lambda>seg. snd (snd (derpolino_segment ev seg))) paths_for_derpolino)"
    by simp_all
  have t: "fst (tasks_of ev) = Inr ()"
    and t': "snd (snd (tasks_of ev)) = urls @ static_urls"
    using l r by (simp_all add: tasks_of_def)
  show ?thesis
    using a b c t t' u length_static_urls by blast
qed

theorem discovery_failure_keeps_the_batch_witness:
  "derpolino_segment
     \<lparr>session_get = (\<lambda>u. Inr \<lparr>status = 200, body = Inr ''<html>''\<rparr>),
      json_loads = (\<lambda>c. Inl JSONDecodeError)\<rparr> ''images''
   = (Inr (),
      [INFO_Fetching (php_url_of ''images''), ERROR_decode_json (php_url_of ''images'')],
      [])
   \<and> snd (snd (tasks_of
        \<lparr>session_get = (\<lambda>u. Inr \<lparr>status = 200, body = Inr ''<html>''\<rparr>),
         json_loads = (\<lambda>c. Inl JSONDecodeError)\<rparr>)) = static_urls"
proof -
  define ev :: env where
    "ev = \<lparr>session_get = (\<lambda>u. Inr \<lparr>status = 200, body = Inr ''<html>''\<rparr>),
           json_loads = (\<lambda>c. Inl JSONDecodeError)\<rparr>"
  have n: "never_interrupted ev"
    by (simp add: never_interrupted_def never_cancelled_def ev_def)
  have s: "session_get ev (php_url_of seg) = Inr \<lparr>status = 200, body = Inr ''<html>''\<rparr>"
    and j: "json_loads ev ''<html>'' = Inl JSONDecodeError" for seg
    by (simp_all add: ev_def)
  note t = discovery_failure_keeps_the_batch [OF n, where resp = "\<lparr>status = 200, body = Inr ''<html>''\<rparr>"
        and content = "''<html>''"]
  have e: "derpolino_segment ev seg
      = (Inr (), [INFO_Fetching (php_url_of seg), ERROR_decode_json (php_url_of seg)], [])" for seg
    using t [of seg] s j by simp
  have "snd (snd (tasks_of ev)) = static_urls"
    using t [of "''images''"] by (simp add: e)
  with e [of "''images''"] show ?thesis
    by (simp add: ev_def)
qed


subsection \<open>From the URL to the local path\<close>

lemma py_split_takeWhile: "\<exists>fs. py_split sep s = takeWhile (\<lambda>c. c \<noteq> sep) s # fs"
  by (induction s) auto

lemma takeWhile_twice:
  "takeWhile P (takeWhile Q xs) = takeWhile (\<lambda>x. P x \<and> Q x) xs"
  by (induction xs) auto

lemma takeWhile_all_then_stop:
  assumes "list_all P xs" and "list_all (\<lambda>c. \<not> P c) (take 1 ys)"
  shows "takeWhile P (xs @ ys) = xs" and "dropWhile P (xs @ ys) = ys"
proof -
  have t: "takeWhile P ys = []" and d: "dropWhile P ys = ys"
    using assms(2) by (cases ys; simp)+
  show "takeWhile P (xs @ ys) = xs" "dropWhile P (xs @ ys) = ys"
    using assms(1) t d by (induction xs) auto
qed

lemma splitparams_none: "CHR '';'' \<notin> set u \<Longrightarrow> splitparams u = (u, [])"
proof -
  assume a: "CHR '';'' \<notin> set u"
  have "set (after_last_slash u) \<subseteq> set u"
    by (auto simp: after_last_slash_def dest: set_takeWhileD)
  with a show ?thesis
    by (auto simp: splitparams_def Let_def)
qed

lemma scheme_facts:
  "ascii_alpha CHR ''h''" "list_all scheme_char ''http''" "list_all scheme_char ''https''"
  "map ascii_lower ''http'' = ''http''" "map ascii_lower ''https'' = ''https''"
  "''http'' \<in> set uses_params" "''https'' \<in> set uses_params"
  "\<not> c0_control_or_space CHR ''h''"
  "list_all (\<lambda>c. \<not> unsafe_url_byte c) ''http://''"
  "list_all (\<lambda>c. \<not> unsafe_url_byte c) ''https://''"
  by code_simp+

lemma split_scheme_http: "split_scheme (''http://'' @ x) = (''http'', ''//'' @ x)"
proof -
  have "takeWhile (\<lambda>c. c \<noteq> CHR '':'') (''http://'' @ x) = ''http''"
    by simp
  then show ?thesis
    using scheme_facts by (simp add: split_scheme_def)
qed

lemma split_scheme_https: "split_scheme (''https://'' @ x) = (''https'', ''//'' @ x)"
proof -
  have "takeWhile (\<lambda>c. c \<noteq> CHR '':'') (''https://'' @ x) = ''https''"
    by simp
  then show ?thesis
    using scheme_facts by (simp add: split_scheme_def)
qed

lemma host_char_safe: "host_char c \<Longrightarrow> \<not> unsafe_url_byte c"
  by (auto simp: host_char_def c0_control_or_space_def unsafe_url_byte_def)

lemma urlparse_absolute:
  assumes sch: "sch = ''http'' \<or> sch = ''https''"
      and host: "list_all host_char host"
      and start: "list_all netloc_delim (take 1 rest)"
      and safe: "list_all (\<lambda>c. \<not> unsafe_url_byte c) rest"
  shows "\<exists>r. urlparse (sch @ ''://'' @ host @ rest) = Inr r \<and> path r = path_component rest"
proof -
  define url0 where "url0 = sch @ ''://'' @ host @ rest"
  have h: "url0 = CHR ''h'' # tl url0"
    using sch by (auto simp: url0_def)
  have u1: "dropWhile c0_control_or_space url0 = url0"
    using scheme_facts(8) by (subst h, subst (2) h) simp
  have "list_all (\<lambda>c. \<not> unsafe_url_byte c) (sch @ ''://'')"
    using sch scheme_facts(9,10) by auto
  moreover have "list_all (\<lambda>c. \<not> unsafe_url_byte c) host"
    using host by (auto simp: list_all_iff host_char_safe)
  ultimately have "list_all (\<lambda>c. \<not> unsafe_url_byte c) url0"
    using safe by (simp add: url0_def)
  then have u2: "filter (\<lambda>c. \<not> unsafe_url_byte c) url0 = url0"
    by (simp add: list_all_iff)
  define url2 where "url2 = ''//'' @ host @ rest"
  have u3: "split_scheme url0 = (sch, url2)"
    using sch split_scheme_http [of "host @ rest"] split_scheme_https [of "host @ rest"]
    by (auto simp: url0_def url2_def)
  have hd: "list_all (\<lambda>c. \<not> netloc_delim c) host"
    using host by (auto simp: list_all_iff host_char_def)
  have st: "list_all (\<lambda>c. \<not> \<not> netloc_delim c) (take 1 rest)"
    using start by simp
  have u4: "splitnetloc url2 = (host, rest)"
    using takeWhile_all_then_stop [OF hd st] by (simp add: splitnetloc_def url2_def)
  have u5: "\<not> unmatched_bracket host"
    using host by (auto simp: unmatched_bracket_def list_all_iff host_char_def)
  have u6: "fst (split_once CHR ''?'' (fst (split_once CHR ''#'' rest)))
      = takeWhile (\<lambda>c. c \<noteq> CHR ''?'' \<and> c \<noteq> CHR ''#'') rest"
    by (simp add: split_once_def takeWhile_twice)
  have u7: "fst (if sch \<in> set uses_params \<and> CHR '';'' \<in> set u then splitparams u else (u, []))
      = fst (splitparams u)" for u
    using sch scheme_facts(6,7) splitparams_none [of u] by auto
  have "urlparse url0 = Inr
      \<lparr>scheme = sch, netloc = host,
       path = fst (if sch \<in> set uses_params
                     \<and> CHR '';'' \<in> set (fst (split_once CHR ''?'' (fst (split_once CHR ''#'' rest))))
                   then splitparams (fst (split_once CHR ''?'' (fst (split_once CHR ''#'' rest))))
                   else (fst (split_once CHR ''?'' (fst (split_once CHR ''#'' rest))), [])),
       params = snd (if sch \<in> set uses_params
                     \<and> CHR '';'' \<in> set (fst (split_once CHR ''?'' (fst (split_once CHR ''#'' rest))))
                   then splitparams (fst (split_once CHR ''?'' (fst (split_once CHR ''#'' rest))))
                   else (fst (split_once CHR ''?'' (fst (split_once CHR ''#'' rest))), [])),
       query = snd (split_once CHR ''?'' (fst (split_once CHR ''#'' rest))),
       fragment = snd (split_once CHR ''#'' rest)\<rparr>"
    by (simp add: urlparse_def u1 u2 u3 u4 u5 case_prod_beta)
  then show ?thesis
    unfolding url0_def path_component_def u7 u6 by simp
qed


lemma strip_one_slash_eq:
  "(if startswith p ''/'' then drop 1 p else p) = strip_one_slash p"
  by (cases p) (auto simp: startswith_def strip_one_slash_def)

lemma local_filepath_of_parsed:
  assumes "urlparse url = Inr parsed"
  shows "local_filepath_of url root =
     Inr (os_path_join root
           (strip_one_slash (unquote (takeWhile (\<lambda>c. c \<noteq> CHR ''?'') (path parsed)))))"
proof -
  obtain fs where "py_split CHR ''?'' (path parsed)
      = takeWhile (\<lambda>c. c \<noteq> CHR ''?'') (path parsed) # fs"
    using py_split_takeWhile by blast
  with assms show ?thesis
    by (simp add: local_filepath_of_def Let_def strip_one_slash_eq)
qed

lemma after_last_slash_Nil: "after_last_slash a = [] \<longleftrightarrow> a = [] \<or> last a = CHR ''/''"
  by (cases "a = []") (auto simp: after_last_slash_def takeWhile_eq_Nil_iff hd_rev)

lemma os_path_join_relative:
  "\<not> startswith b ''/'' \<Longrightarrow> a \<noteq> [] \<Longrightarrow> last a \<noteq> CHR ''/'' \<Longrightarrow>
   os_path_join a b = a @ ''/'' @ b"
  by (simp add: os_path_join_def after_last_slash_Nil)

text \<open>
  C4. For a URL with the scheme \<^verbatim>\<open>http\<close> or \<^verbatim>\<open>https\<close>, a host of ASCII
  characters without brackets, and then nothing or a path, query or fragment, lines
  25 to 37 raise nothing and give the path component, cut at the first question
  mark, percent-decoded, without one leading separator if it has one, joined to the
  root by \<^verbatim>\<open>os.path.join\<close>. For the path \<^verbatim>\<open>/a/b%20c.png?x=1\<close> and a root that
  does not end with a separator the result is the root followed by
  \<^verbatim>\<open>/a/b c.png\<close>. The function takes no filesystem: it cannot read one.
\<close>

theorem path_mapper_steps:
  assumes sch: "sch = ''http'' \<or> sch = ''https''"
      and host: "list_all host_char host"
      and start: "list_all netloc_delim (take 1 rest)"
      and safe: "list_all (\<lambda>c. \<not> unsafe_url_byte c) rest"
  shows "local_filepath_of (sch @ ''://'' @ host @ rest) root =
           Inr (os_path_join root
                 (strip_one_slash
                   (unquote (takeWhile (\<lambda>c. c \<noteq> CHR ''?'') (path_component rest)))))
       \<and> (root \<noteq> [] \<and> last root \<noteq> CHR ''/'' \<longrightarrow>
            local_filepath_of (sch @ ''://'' @ host @ ''/a/b%20c.png?x=1'') root
              = Inr (root @ ''/a/b c.png''))"
proof -
  have general: "local_filepath_of (sch @ ''://'' @ host @ r) root =
      Inr (os_path_join root
            (strip_one_slash (unquote (takeWhile (\<lambda>c. c \<noteq> CHR ''?'') (path_component r)))))"
    if a: "list_all netloc_delim (take 1 r)" and b: "list_all (\<lambda>c. \<not> unsafe_url_byte c) r"
    for r
  proof -
    obtain parsed where "urlparse (sch @ ''://'' @ host @ r) = Inr parsed"
      and "path parsed = path_component r"
      using urlparse_absolute [OF sch host a b] by blast
    with local_filepath_of_parsed show ?thesis by simp
  qed
  have e1: "list_all netloc_delim (take 1 ''/a/b%20c.png?x=1'')"
    and e2: "list_all (\<lambda>c. \<not> unsafe_url_byte c) ''/a/b%20c.png?x=1''"
    and e3: "strip_one_slash (unquote (takeWhile (\<lambda>c. c \<noteq> CHR ''?'')
        (path_component ''/a/b%20c.png?x=1''))) = ''a/b c.png''"
    and e4: "\<not> startswith ''a/b c.png'' ''/''"
    by code_simp+
  have "local_filepath_of (sch @ ''://'' @ host @ ''/a/b%20c.png?x=1'') root
      = Inr (root @ ''/a/b c.png'')"
    if "root \<noteq> []" "last root \<noteq> CHR ''/''"
    using general [OF e1 e2] os_path_join_relative [OF e4 that] by (simp add: e3)
  with general [OF start safe] show ?thesis by blast
qed

theorem path_mapper_steps_witness:
  "local_filepath_of ''https://www.transformice.com/a/b%20c.png?x=1'' BASE_DOWNLOAD_FOLDER
   = Inr ''TFM_DOWNLOADED_ASSETS/a/b c.png''"
proof -
  have s: "''https'' = ''http'' \<or> ''https'' = ''https''"
    by simp
  have h: "list_all host_char ''www.transformice.com''"
    and e1: "list_all netloc_delim (take 1 ''/a/b%20c.png?x=1'')"
    and e2: "list_all (\<lambda>c. \<not> unsafe_url_byte c) ''/a/b%20c.png?x=1''"
    by code_simp+
  have r: "BASE_DOWNLOAD_FOLDER \<noteq> [] \<and> last BASE_DOWNLOAD_FOLDER \<noteq> CHR ''/''"
    by code_simp
  from path_mapper_steps [OF s h e1 e2, of BASE_DOWNLOAD_FOLDER] r
  have "local_filepath_of (''https'' @ ''://'' @ ''www.transformice.com'' @ ''/a/b%20c.png?x=1'')
      BASE_DOWNLOAD_FOLDER = Inr (BASE_DOWNLOAD_FOLDER @ ''/a/b c.png'')"
    by blast
  then show ?thesis
    by (simp add: BASE_DOWNLOAD_FOLDER_def)
qed











end
